theory Spec2Isabelle
  imports Complex_Main "HOL-Library.AList" "HOL-Library.Multiset"
begin

section \<open>JSON values and Python's truth test\<close>

text \<open>
  The program moves data between JSON text, Python objects and SQLite rows. A decoded
  JSON document is a value of \<open>json\<close>; a Python \<open>dict\<close> with string keys is an
  association list read with \<open>map_of\<close>. Characters are the 8-bit \<open>char\<close>s of HOL,
  and numbers are integers: documents with fractional numbers or with characters beyond
  code point 255 lie outside the model.
\<close>

datatype json =
    JNull
  | JBool bool
  | JInt int
  | JStr string
  | JList "json list"
  | JObj "(string \<times> json) list"

type_synonym dict = "(string \<times> json) list"

text \<open>Python's truth value of an object, as \<open>or\<close> and \<open>if\<close> test it.\<close>

fun truthy :: "json \<Rightarrow> bool" where
  "truthy JNull = False"
| "truthy (JBool b) = b"
| "truthy (JInt i) = (i \<noteq> 0)"
| "truthy (JStr s) = (s \<noteq> [])"
| "truthy (JList xs) = (xs \<noteq> [])"
| "truthy (JObj kvs) = (kvs \<noteq> [])"

text \<open>\<open>d.get(k)\<close>, \<open>d.get(k, default)\<close>, \<open>k in d\<close> and \<open>a or b\<close>.\<close>

definition dict_get :: "dict \<Rightarrow> string \<Rightarrow> json" where
  "dict_get d k = (case map_of d k of None \<Rightarrow> JNull | Some v \<Rightarrow> v)"

definition dict_get_default :: "dict \<Rightarrow> string \<Rightarrow> json \<Rightarrow> json" where
  "dict_get_default d k dflt = (case map_of d k of None \<Rightarrow> dflt | Some v \<Rightarrow> v)"

definition dict_has :: "dict \<Rightarrow> string \<Rightarrow> bool" where
  "dict_has d k = (map_of d k \<noteq> None)"

definition py_or :: "json \<Rightarrow> json \<Rightarrow> json" where
  "py_or a b = (if truthy a then a else b)"

section \<open>The \<open>json\<close> module: \<open>json.dumps\<close> and \<open>json.loads\<close>\<close>

abbreviation dquote :: char where "dquote \<equiv> CHR 0x22"
abbreviation bslash :: char where "bslash \<equiv> CHR 0x5C"

abbreviation qt :: "string \<Rightarrow> string" where
  "qt s \<equiv> dquote # s @ [dquote]"

subsection \<open>Serialisation\<close>

fun digits_of :: "nat \<Rightarrow> string" where
  "digits_of n =
    (if n < 10 then [char_of (48 + n)]
     else digits_of (n div 10) @ [char_of (48 + n mod 10)])"

declare digits_of.simps [simp del]

definition str_int :: "int \<Rightarrow> string" where
  "str_int i = (if i < 0 then CHR ''-'' # digits_of (nat (- i)) else digits_of (nat i))"

definition hex_digit :: "nat \<Rightarrow> char" where
  "hex_digit n = (if n < 10 then char_of (48 + n) else char_of (87 + n))"

text \<open>
  \<open>json.dumps\<close> runs with its defaults (\<open>ensure_ascii=True\<close>, separators \<open>", "\<close> and
  \<open>": "\<close>): the quote, the backslash and the five named control characters get their
  two-character escapes, every other character outside \<open>' '..'~'\<close> is written
  \<open>\u00xx\<close> in lower-case hexadecimal.
\<close>

definition json_escape_char :: "char \<Rightarrow> string" where
  "json_escape_char c =
    (if c = dquote then [bslash, dquote]
     else if c = bslash then [bslash, bslash]
     else if c = CHR 0x0A then [bslash, CHR ''n'']
     else if c = CHR 0x0D then [bslash, CHR ''r'']
     else if c = CHR 0x09 then [bslash, CHR ''t'']
     else if c = CHR 0x08 then [bslash, CHR ''b'']
     else if c = CHR 0x0C then [bslash, CHR ''f'']
     else if 32 \<le> (of_char c :: nat) \<and> (of_char c :: nat) \<le> 126 then [c]
     else [bslash, CHR ''u'', CHR ''0'', CHR ''0'',
           hex_digit ((of_char c :: nat) div 16), hex_digit ((of_char c :: nat) mod 16)])"

definition json_quote :: "string \<Rightarrow> string" where
  "json_quote s = dquote # concat (map json_escape_char s) @ [dquote]"

definition join_sep :: "string \<Rightarrow> string list \<Rightarrow> string" where
  "join_sep sep xs = (case xs of [] \<Rightarrow> [] | x # ys \<Rightarrow> x @ concat (map (\<lambda>y. sep @ y) ys))"

fun json_dumps :: "json \<Rightarrow> string" where
  "json_dumps JNull = ''null''"
| "json_dumps (JBool b) = (if b then ''true'' else ''false'')"
| "json_dumps (JInt i) = str_int i"
| "json_dumps (JStr s) = json_quote s"
| "json_dumps (JList xs) = ''['' @ join_sep '', '' (map json_dumps xs) @ '']''"
| "json_dumps (JObj kvs) =
     ''{'' @ join_sep '', '' (map (\<lambda>(k, v). json_quote k @ '': '' @ json_dumps v) kvs) @ ''}''"

subsection \<open>Parsing\<close>

text \<open>
  The decoder follows CPython's \<open>json.decoder\<close>: \<open>scanstring\<close> reads a string body
  up to its closing quote (strict mode: a raw control character is an error),
  \<open>parse_number\<close> matches \<open>-?(0|[1-9][0-9]*)\<close>, arrays and objects skip the four
  JSON whitespace characters around their delimiters, an object's pairs are turned into
  a \<open>dict\<close> (a repeated key keeps its first position and its last value), and
  \<open>json_loads\<close> refuses text with anything but whitespace after the value.
  \<open>None\<close> stands for \<open>JSONDecodeError\<close>.
\<close>

definition is_json_ws :: "char \<Rightarrow> bool" where
  "is_json_ws c = (c = CHR '' '' \<or> c = CHR 0x09 \<or> c = CHR 0x0A \<or> c = CHR 0x0D)"

definition skip_ws :: "string \<Rightarrow> string" where
  "skip_ws s = dropWhile is_json_ws s"

definition is_digit :: "char \<Rightarrow> bool" where
  "is_digit c = (48 \<le> (of_char c :: nat) \<and> (of_char c :: nat) \<le> 57)"

definition hex_val :: "char \<Rightarrow> nat option" where
  "hex_val c =
    (let n = (of_char c :: nat) in
     if 48 \<le> n \<and> n \<le> 57 then Some (n - 48)
     else if 97 \<le> n \<and> n \<le> 102 then Some (n - 87)
     else if 65 \<le> n \<and> n \<le> 70 then Some (n - 55)
     else None)"

definition hex4 :: "char \<Rightarrow> char \<Rightarrow> char \<Rightarrow> char \<Rightarrow> nat option" where
  "hex4 a b c d =
    (case (hex_val a, hex_val b, hex_val c, hex_val d) of
       (Some w, Some x, Some y, Some z) \<Rightarrow> Some (((w * 16 + x) * 16 + y) * 16 + z)
     | _ \<Rightarrow> None)"

definition unescape :: "char \<Rightarrow> char option" where
  "unescape e =
    (if e = dquote then Some dquote
     else if e = bslash then Some bslash
     else if e = CHR ''/'' then Some (CHR ''/'')
     else if e = CHR ''b'' then Some (CHR 0x08)
     else if e = CHR ''f'' then Some (CHR 0x0C)
     else if e = CHR ''n'' then Some (CHR 0x0A)
     else if e = CHR ''r'' then Some (CHR 0x0D)
     else if e = CHR ''t'' then Some (CHR 0x09)
     else None)"

definition cons_fst :: "'a \<Rightarrow> ('a list \<times> 'b) option \<Rightarrow> ('a list \<times> 'b) option" where
  "cons_fst x r = (case r of None \<Rightarrow> None | Some (xs, rest) \<Rightarrow> Some (x # xs, rest))"

fun scanstring :: "string \<Rightarrow> (string \<times> string) option" where
  "scanstring [] = None"
| "scanstring (c # cs) =
    (if c = dquote then Some ([], cs)
     else if c = bslash then
       (case cs of
          [] \<Rightarrow> None
        | e # r \<Rightarrow>
            if e = CHR ''u'' then
              (case r of
                 h1 # h2 # h3 # h4 # r' \<Rightarrow>
                   (case hex4 h1 h2 h3 h4 of
                      None \<Rightarrow> None
                    | Some n \<Rightarrow> if n < 256 then cons_fst (char_of n) (scanstring r') else None)
               | _ \<Rightarrow> None)
            else
              (case unescape e of
                 None \<Rightarrow> None
               | Some ch \<Rightarrow> cons_fst ch (scanstring r)))
     else if (of_char c :: nat) < 32 then None
     else cons_fst c (scanstring cs))"

definition nat_of_digits :: "string \<Rightarrow> nat" where
  "nat_of_digits ds = foldl (\<lambda>a c. 10 * a + ((of_char c :: nat) - 48)) 0 ds"

text \<open>
  A fraction or an exponent after the integer part makes the literal a float; the model
  has none, and no JSON text is valid with such a character right after an integer, so
  the parser gives \<open>None\<close> there.
\<close>

definition float_start :: "string \<Rightarrow> bool" where
  "float_start r =
    (case r of [] \<Rightarrow> False | x # _ \<Rightarrow> x = CHR ''.'' \<or> x = CHR ''e'' \<or> x = CHR ''E'')"

definition parse_number :: "string \<Rightarrow> (json \<times> string) option" where
  "parse_number s =
    (let neg = (s \<noteq> [] \<and> hd s = CHR ''-'');
         t = (if neg then tl s else s)
     in case t of
          [] \<Rightarrow> None
        | d # ds \<Rightarrow>
            if \<not> is_digit d then None
            else
              let body = (if d = CHR ''0'' then [d] else takeWhile is_digit t);
                  r = drop (length body) t;
                  n = int (nat_of_digits body)
              in if float_start r then None
                 else Some (JInt (if neg then - n else n), r))"

definition py_dict :: "(string \<times> json) list \<Rightarrow> dict" where
  "py_dict ps = foldl (\<lambda>d (k, v). AList.update k v d) [] ps"

definition literal_word :: "string \<Rightarrow> json \<Rightarrow> string \<Rightarrow> (json \<times> string) option" where
  "literal_word w v s = (if take (length w) s = w then Some (v, drop (length w) s) else None)"

lemma scanstring_shorter: "scanstring s = Some (t, r) \<Longrightarrow> length r < length s"
  by (induction s arbitrary: t r rule: scanstring.induct)
     (auto simp: cons_fst_def split: if_splits list.splits option.splits prod.splits, fastforce+)

lemma skip_ws_length: "length (skip_ws s) \<le> length s"
  by (simp add: skip_ws_def length_dropWhile_le)

lemma skip_ws_Cons_length: "skip_ws s = c # r \<Longrightarrow> length r < length s"
  using skip_ws_length [of s] by simp

text \<open>
  The three mutually recursive parsers. \<open>parse_elems\<close> starts at the first character
  of an array element, \<open>parse_members\<close> right after the opening quote of an object
  key. The tests \<open>length r < length s\<close> on what a nested call leaves are there for the
  termination proof only: every parser consumes input (\<open>parse_consumes\<close> below), so
  the tests never fail and the equations hold without them (\<open>parse_elems_unguarded\<close>,
  \<open>parse_members_unguarded\<close>).
\<close>

function parse_value :: "string \<Rightarrow> (json \<times> string) option"
  and parse_elems :: "string \<Rightarrow> (json list \<times> string) option"
  and parse_members :: "string \<Rightarrow> ((string \<times> json) list \<times> string) option"
where
  "parse_value s =
    (case s of
       [] \<Rightarrow> None
     | c # cs \<Rightarrow>
         if c = dquote then
           (case scanstring cs of None \<Rightarrow> None | Some (t, r) \<Rightarrow> Some (JStr t, r))
         else if c = CHR ''{'' then
           (case skip_ws cs of
              [] \<Rightarrow> None
            | d # ds \<Rightarrow>
                if d = CHR ''}'' then Some (JObj [], ds)
                else if d = dquote then
                  (case parse_members ds of
                     None \<Rightarrow> None
                   | Some (ps, r) \<Rightarrow> Some (JObj (py_dict ps), r))
                else None)
         else if c = CHR ''['' then
           (case skip_ws cs of
              [] \<Rightarrow> None
            | d # ds \<Rightarrow>
                if d = CHR '']'' then Some (JList [], ds)
                else
                  (case parse_elems (d # ds) of
                     None \<Rightarrow> None
                   | Some (vs, r) \<Rightarrow> Some (JList vs, r)))
         else if c = CHR ''n'' then literal_word ''null'' JNull s
         else if c = CHR ''t'' then literal_word ''true'' (JBool True) s
         else if c = CHR ''f'' then literal_word ''false'' (JBool False) s
         else parse_number s)"
| "parse_elems s =
    (case parse_value s of
       None \<Rightarrow> None
     | Some (v, r) \<Rightarrow>
         if length r < length s then
           (case skip_ws r of
              [] \<Rightarrow> None
            | c # r1 \<Rightarrow>
                if c = CHR '']'' then Some ([v], r1)
                else if c = CHR '','' then cons_fst v (parse_elems (skip_ws r1))
                else None)
         else None)"
| "parse_members s =
    (case scanstring s of
       None \<Rightarrow> None
     | Some (k, r) \<Rightarrow>
         (case skip_ws r of
            [] \<Rightarrow> None
          | c # r1 \<Rightarrow>
              if c \<noteq> CHR '':'' then None
              else
                (case parse_value (skip_ws r1) of
                   None \<Rightarrow> None
                 | Some (v, r2) \<Rightarrow>
                     if length r2 < length s then
                       (case skip_ws r2 of
                          [] \<Rightarrow> None
                        | d # r3 \<Rightarrow>
                            if d = CHR ''}'' then Some ([(k, v)], r3)
                            else if d = CHR '','' then
                              (case skip_ws r3 of
                                 [] \<Rightarrow> None
                               | q # r4 \<Rightarrow>
                                   if q = dquote then cons_fst (k, v) (parse_members r4)
                                   else None)
                            else None)
                     else None)))"
  by pat_completeness auto

termination
  apply (relation "measure (\<lambda>x. case x of Inl s \<Rightarrow> 2 * length s
                               | Inr (Inl s) \<Rightarrow> 2 * length s + 1
                               | Inr (Inr s) \<Rightarrow> 2 * length s + 1)")
        apply (auto dest!: skip_ws_Cons_length scanstring_shorter)
  subgoal for s a b x22 using skip_ws_length [of x22] by linarith
  subgoal for s b x22 using skip_ws_length [of x22] by linarith
  done

declare parse_value.simps [simp del] parse_elems.simps [simp del] parse_members.simps [simp del]

definition json_loads :: "string \<Rightarrow> json option" where
  "json_loads s =
    (case parse_value (skip_ws s) of
       None \<Rightarrow> None
     | Some (v, r) \<Rightarrow> if skip_ws r = [] then Some v else None)"

text \<open>
  A value that Python can hold: the keys of every \<open>dict\<close> in it are distinct. Every
  value \<open>json_loads\<close> returns is of this kind (\<open>json_loads_wf\<close> below).
\<close>

fun wf_json :: "json \<Rightarrow> bool" where
  "wf_json (JList xs) = list_all wf_json xs"
| "wf_json (JObj kvs) = (distinct (map fst kvs) \<and> list_all (\<lambda>(k, v). wf_json v) kvs)"
| "wf_json _ = True"

section \<open>Python string operations used by the program\<close>

text \<open>
  \<open>str.strip()\<close> removes Python's whitespace characters (of those below code point
  256: tab to carriage return, the four separators \<open>0x1c..0x1f\<close>, the space,
  \<open>0x85\<close> and \<open>0xa0\<close>); \<open>str.find\<close> and \<open>str.rfind\<close> give \<open>-1\<close> when the character
  does not occur; \<open>s[a:b]\<close> is read for \<open>0 \<le> a\<close> and \<open>0 \<le> b\<close> only, which is how
  the program uses it; \<open>xs[:n]\<close> with a negative \<open>n\<close> drops the last \<open>-n\<close> elements.
\<close>

definition is_py_ws :: "char \<Rightarrow> bool" where
  "is_py_ws c =
    (let n = (of_char c :: nat) in
     (9 \<le> n \<and> n \<le> 13) \<or> (28 \<le> n \<and> n \<le> 32) \<or> n = 133 \<or> n = 160)"

definition py_strip :: "string \<Rightarrow> string" where
  "py_strip s = rev (dropWhile is_py_ws (rev (dropWhile is_py_ws s)))"

definition py_find :: "string \<Rightarrow> char \<Rightarrow> int" where
  "py_find s c = (if c \<in> set s then int (length (takeWhile (\<lambda>x. x \<noteq> c) s)) else - 1)"

definition py_rfind :: "string \<Rightarrow> char \<Rightarrow> int" where
  "py_rfind s c =
    (if c \<in> set s then int (length s) - 1 - int (length (takeWhile (\<lambda>x. x \<noteq> c) (rev s)))
     else - 1)"

definition py_slice :: "'a list \<Rightarrow> int \<Rightarrow> int \<Rightarrow> 'a list" where
  "py_slice s a b = take (nat (b - a)) (drop (nat a) s)"

definition py_upto :: "'a list \<Rightarrow> int \<Rightarrow> 'a list" where
  "py_upto xs n = (if 0 \<le> n then take (nat n) xs else take (nat (int (length xs) + n)) xs)"

definition py_lower_char :: "char \<Rightarrow> char" where
  "py_lower_char c =
    (let n = (of_char c :: nat) in
     if (65 \<le> n \<and> n \<le> 90) \<or> (192 \<le> n \<and> n \<le> 222 \<and> n \<noteq> 215) then char_of (n + 32) else c)"

definition py_lower :: "string \<Rightarrow> string" where
  "py_lower s = map py_lower_char s"

text \<open>\<open>s.find(sub) != -1\<close>: \<open>sub\<close> occurs in \<open>s\<close> as a contiguous substring.\<close>

fun py_contains :: "string \<Rightarrow> string \<Rightarrow> bool" where
  "py_contains [] sub = (sub = [])"
| "py_contains (c # cs) sub = (take (length sub) (c # cs) = sub \<or> py_contains cs sub)"

section \<open>The record normalizer: the bindings of \<open>save_startup_to_db\<close>\<close>

text \<open>
  \<open>api.py\<close> and \<open>parse_results_to_db.py\<close> define \<open>save_startup_to_db\<close> with the same
  body. Its first half binds fourteen local variables from the raw mapping; \<open>normalize\<close>
  is that half, one field per variable, in the source's order. The four sequence fields
  hold the text \<open>json.dumps\<close> returns.
\<close>

record normalized =
  n_company_name :: json
  n_website_url :: json
  n_founding_year :: json
  n_founders :: string
  n_business_model :: json
  n_industry_sector :: json
  n_funding_rounds :: string
  n_total_capital_raised :: json
  n_current_revenue_estimates :: json
  n_employee_count :: json
  n_customer_user_base_size :: json
  n_key_partnerships :: string
  n_major_competitors :: string
  n_recent_news_developments :: json

definition normalize :: "dict \<Rightarrow> normalized" where
  "normalize startup_data =
    \<lparr> n_company_name =
        py_or (py_or (dict_get startup_data ''Company Name'')
                     (dict_get startup_data ''company_name''))
              (dict_get_default startup_data ''name'' (JStr '''')),
      n_website_url =
        py_or (py_or (dict_get startup_data ''Website URL'')
                     (dict_get startup_data ''website_url''))
              (dict_get_default startup_data ''website'' (JStr '''')),
      n_founding_year =
        py_or (py_or (dict_get startup_data ''Founding Year'')
                     (dict_get startup_data ''founding_year''))
              (dict_get_default startup_data ''founded'' JNull),
      n_founders =
        json_dumps (dict_get_default startup_data ''Founders''
                      (dict_get_default startup_data ''founders'' (JList []))),
      n_business_model =
        py_or (dict_get startup_data ''Business Model'')
              (dict_get_default startup_data ''business_model'' (JStr '''')),
      n_industry_sector =
        py_or (py_or (dict_get startup_data ''Industry Sector'')
                     (dict_get startup_data ''industry_sector''))
              (dict_get_default startup_data ''industry'' (JStr '''')),
      n_funding_rounds =
        json_dumps (dict_get_default startup_data ''Funding Rounds''
                      (dict_get_default startup_data ''funding_rounds'' (JList []))),
      n_total_capital_raised =
        py_or (py_or (dict_get startup_data ''Total Capital Raised to Date'')
                     (dict_get startup_data ''total_capital_raised''))
              (dict_get_default startup_data ''total_funding'' (JStr '''')),
      n_current_revenue_estimates =
        py_or (py_or (dict_get startup_data ''Current Revenue Estimates'')
                     (dict_get startup_data ''current_revenue_estimates''))
              (dict_get_default startup_data ''revenue'' (JStr '''')),
      n_employee_count =
        py_or (py_or (dict_get startup_data ''Employee Count'')
                     (dict_get startup_data ''employee_count''))
              (dict_get_default startup_data ''employees'' JNull),
      n_customer_user_base_size =
        py_or (py_or (dict_get startup_data ''Customer/User Base Size'')
                     (dict_get startup_data ''customer_user_base_size''))
              (dict_get_default startup_data ''users'' (JStr '''')),
      n_key_partnerships =
        json_dumps (dict_get_default startup_data ''Key Partnerships''
                      (dict_get_default startup_data ''key_partnerships'' (JList []))),
      n_major_competitors =
        json_dumps (dict_get_default startup_data ''Major Competitors''
                      (dict_get_default startup_data ''major_competitors'' (JList []))),
      n_recent_news_developments =
        py_or (py_or (dict_get startup_data ''Recent News or Developments'')
                     (dict_get startup_data ''recent_news_developments''))
              (dict_get_default startup_data ''recent_news'' (JStr '''')) \<rparr>"

text \<open>
  The bindings of \<open>research_startups.py\<close>, which reads the human-readable label only.
\<close>

definition rs_normalize :: "dict \<Rightarrow> normalized" where
  "rs_normalize startup_data =
    \<lparr> n_company_name = dict_get_default startup_data ''Company Name'' (JStr ''''),
      n_website_url = dict_get_default startup_data ''Website URL'' (JStr ''''),
      n_founding_year = dict_get_default startup_data ''Founding Year'' JNull,
      n_founders = json_dumps (dict_get_default startup_data ''Founders'' (JList [])),
      n_business_model = dict_get_default startup_data ''Business Model'' (JStr ''''),
      n_industry_sector = dict_get_default startup_data ''Industry Sector'' (JStr ''''),
      n_funding_rounds = json_dumps (dict_get_default startup_data ''Funding Rounds'' (JList [])),
      n_total_capital_raised =
        dict_get_default startup_data ''Total Capital Raised to Date'' (JStr ''''),
      n_current_revenue_estimates =
        dict_get_default startup_data ''Current Revenue Estimates'' (JStr ''''),
      n_employee_count = dict_get_default startup_data ''Employee Count'' JNull,
      n_customer_user_base_size =
        dict_get_default startup_data ''Customer/User Base Size'' (JStr ''''),
      n_key_partnerships =
        json_dumps (dict_get_default startup_data ''Key Partnerships'' (JList [])),
      n_major_competitors =
        json_dumps (dict_get_default startup_data ''Major Competitors'' (JList [])),
      n_recent_news_developments =
        dict_get_default startup_data ''Recent News or Developments'' (JStr '''') \<rparr>"

section \<open>The store: the \<open>startups\<close> table\<close>

text \<open>
  A stored value is NULL, an integer or a text. \<open>sqlite3\<close> binds \<open>None\<close>, \<open>bool\<close>,
  \<open>int\<close> (within 64 bits) and \<open>str\<close>; a \<open>list\<close>, a \<open>dict\<close> or a larger integer makes
  \<open>execute\<close> raise. A \<open>TEXT\<close> column stores a bound integer as its decimal text. An
  \<open>INTEGER\<close> column stores a text that is a plain decimal integer literal as that
  integer and leaves other text as it is (the engine also converts further numeric
  spellings; no statement below depends on them).
\<close>

datatype sqlval = SqlNull | SqlInt int | SqlText string

fun bindable :: "json \<Rightarrow> bool" where
  "bindable (JList xs) = False"
| "bindable (JObj kvs) = False"
| "bindable (JInt i) = (- (2 ^ 63) \<le> i \<and> i < 2 ^ 63)"
| "bindable _ = True"

fun sql_bind :: "json \<Rightarrow> sqlval" where
  "sql_bind JNull = SqlNull"
| "sql_bind (JBool b) = SqlInt (if b then 1 else 0)"
| "sql_bind (JInt i) = SqlInt i"
| "sql_bind (JStr s) = SqlText s"
| "sql_bind _ = SqlNull"

fun text_affinity :: "sqlval \<Rightarrow> string option" where
  "text_affinity SqlNull = None"
| "text_affinity (SqlInt i) = Some (str_int i)"
| "text_affinity (SqlText t) = Some t"

definition int_literal :: "string \<Rightarrow> int option" where
  "int_literal t =
    (let neg = (t \<noteq> [] \<and> hd t = CHR ''-'');
         ds = (if t \<noteq> [] \<and> (hd t = CHR ''-'' \<or> hd t = CHR ''+'') then tl t else t);
         n = int (nat_of_digits ds);
         i = (if neg then - n else n)
     in if ds \<noteq> [] \<and> list_all is_digit ds \<and> - (2 ^ 63) \<le> i \<and> i < 2 ^ 63 then Some i
        else None)"

fun integer_affinity :: "sqlval \<Rightarrow> sqlval" where
  "integer_affinity (SqlText t) = (case int_literal t of Some i \<Rightarrow> SqlInt i | None \<Rightarrow> SqlText t)"
| "integer_affinity v = v"

text \<open>
  One row of the table, column for column. \<open>company_name\<close> is \<open>TEXT NOT NULL\<close>, so it
  is a string; the other \<open>TEXT\<close> columns may be NULL (\<open>None\<close>). \<open>created_at\<close> is the
  \<open>CURRENT_TIMESTAMP\<close> of the insert, a number of seconds.
\<close>

record row =
  row_id :: nat
  company_name :: string
  website_url :: "string option"
  founding_year :: sqlval
  founders :: "string option"
  business_model :: "string option"
  industry_sector :: "string option"
  funding_rounds :: "string option"
  total_capital_raised :: "string option"
  current_revenue_estimates :: "string option"
  employee_count :: sqlval
  customer_user_base_size :: "string option"
  key_partnerships :: "string option"
  major_competitors :: "string option"
  recent_news_developments :: "string option"
  created_at :: nat

text \<open>
  The database: the rows in table order, and the largest id \<open>AUTOINCREMENT\<close> has handed
  out (the \<open>sqlite_sequence\<close> entry), so that an id is never used twice.
\<close>

record db =
  rows :: "row list"
  sqlite_sequence :: nat

definition empty_db :: db where
  "empty_db = \<lparr> rows = [], sqlite_sequence = 0 \<rparr>"

definition next_id :: "db \<Rightarrow> nat" where
  "next_id s = Suc (fold max (map row_id (rows s)) (sqlite_sequence s))"

text \<open>
  The \<open>INSERT\<close> with its fourteen parameters, then \<open>commit\<close>. \<open>None\<close> is the
  exception \<open>execute\<close> raises (a value that cannot be bound, or NULL for
  \<open>company_name\<close>); the caller rolls back, which leaves the database as it was.
  \<open>clock\<close> gives the timestamp the engine reads when it inserts the row of a given id.
\<close>

definition scalar_values :: "normalized \<Rightarrow> json list" where
  "scalar_values v =
    [n_company_name v, n_website_url v, n_founding_year v, n_business_model v,
     n_industry_sector v, n_total_capital_raised v, n_current_revenue_estimates v,
     n_employee_count v, n_customer_user_base_size v, n_recent_news_developments v]"

definition sql_insert :: "(nat \<Rightarrow> nat) \<Rightarrow> normalized \<Rightarrow> db \<Rightarrow> db option" where
  "sql_insert clock v s =
    (if \<not> list_all bindable (scalar_values v) then None
     else
       (case text_affinity (sql_bind (n_company_name v)) of
          None \<Rightarrow> None
        | Some name \<Rightarrow>
            Some \<lparr> rows = rows s @
                     [\<lparr> row_id = next_id s,
                        company_name = name,
                        website_url = text_affinity (sql_bind (n_website_url v)),
                        founding_year = integer_affinity (sql_bind (n_founding_year v)),
                        founders = Some (n_founders v),
                        business_model = text_affinity (sql_bind (n_business_model v)),
                        industry_sector = text_affinity (sql_bind (n_industry_sector v)),
                        funding_rounds = Some (n_funding_rounds v),
                        total_capital_raised = text_affinity (sql_bind (n_total_capital_raised v)),
                        current_revenue_estimates =
                          text_affinity (sql_bind (n_current_revenue_estimates v)),
                        employee_count = integer_affinity (sql_bind (n_employee_count v)),
                        customer_user_base_size =
                          text_affinity (sql_bind (n_customer_user_base_size v)),
                        key_partnerships = Some (n_key_partnerships v),
                        major_competitors = Some (n_major_competitors v),
                        recent_news_developments =
                          text_affinity (sql_bind (n_recent_news_developments v)),
                        created_at = clock (next_id s) \<rparr>],
                   sqlite_sequence = next_id s \<rparr>))"

text \<open>
  \<open>save_startup_to_db\<close> of \<open>api.py\<close> and \<open>parse_results_to_db.py\<close>: \<open>True\<close> after the
  commit, \<open>False\<close> after the rollback.
\<close>

definition save_startup_to_db :: "(nat \<Rightarrow> nat) \<Rightarrow> dict \<Rightarrow> db \<Rightarrow> bool \<times> db" where
  "save_startup_to_db clock startup_data s =
    (case sql_insert clock (normalize startup_data) s of
       Some s' \<Rightarrow> (True, s')
     | None \<Rightarrow> (False, s))"

text \<open>\<open>save_startup_to_db\<close> of \<open>research_startups.py\<close> returns nothing.\<close>

definition rs_save_startup_to_db :: "(nat \<Rightarrow> nat) \<Rightarrow> dict \<Rightarrow> db \<Rightarrow> db" where
  "rs_save_startup_to_db clock startup_data s =
    (case sql_insert clock (rs_normalize startup_data) s of
       Some s' \<Rightarrow> s'
     | None \<Rightarrow> s)"

section \<open>Ingestion\<close>

text \<open>
  The working directory is a list of its regular files, each a name and its text (one
  entry per name), in the order the operating system lists them.
\<close>

type_synonym filesystem = "(string \<times> string) list"

definition path_exists :: "filesystem \<Rightarrow> string \<Rightarrow> bool" where
  "path_exists fs name = (map_of fs name \<noteq> None)"

definition glob_literal :: "filesystem \<Rightarrow> string \<Rightarrow> string list" where
  "glob_literal fs name = (if path_exists fs name then [name] else [])"

text \<open>\<open>glob.glob(pre + "*" + suf)\<close>: the names that start with \<open>pre\<close> and end with \<open>suf\<close>.\<close>

definition glob_star :: "filesystem \<Rightarrow> string \<Rightarrow> string \<Rightarrow> string list" where
  "glob_star fs pre suf =
    filter (\<lambda>n. length pre + length suf \<le> length n
                \<and> take (length pre) n = pre
                \<and> drop (length n - length suf) n = suf)
           (map fst fs)"

definition result_files :: "filesystem \<Rightarrow> string list" where
  "result_files fs =
     glob_literal fs ''research_results.json''
     @ glob_star fs ''research_results_backup_'' ''.json''
     @ glob_star fs ''batch_results_'' ''.json''"

subsection \<open>\<open>parse_result_file\<close>\<close>

definition records_of :: "json \<Rightarrow> json list" where
  "records_of data = (case data of JList xs \<Rightarrow> xs | JObj kvs \<Rightarrow> [JObj kvs] | _ \<Rightarrow> [])"

text \<open>
  The body of \<open>parse_result_file\<close> once the file is read. In \<open>api.py\<close> a
  \<open>JSONDecodeError\<close> of the second \<open>json.loads\<close> reaches the outer handler, which
  returns the empty list; \<open>parse_results_to_db.py\<close> catches it on the spot and returns
  the empty list too.
\<close>

definition parse_content :: "string \<Rightarrow> json list" where
  "parse_content text =
    (let content = py_strip text in
     if content = [] then []
     else
       (case json_loads content of
          Some data \<Rightarrow> records_of data
        | None \<Rightarrow>
            (let start_idx = py_find content (CHR ''['');
                 end_idx = py_rfind content (CHR '']'')
             in if start_idx \<noteq> - 1 \<and> end_idx \<noteq> - 1 \<and> end_idx > start_idx then
                  (case json_loads (py_slice content start_idx (end_idx + 1)) of
                     Some data \<Rightarrow> records_of data
                   | None \<Rightarrow> [])
                else [])))"

text \<open>A file that cannot be opened raises inside the \<open>try\<close>: the empty list.\<close>

definition parse_result_file :: "filesystem \<Rightarrow> string \<Rightarrow> json list" where
  "parse_result_file fs filename =
    (case map_of fs filename of None \<Rightarrow> [] | Some text \<Rightarrow> parse_content text)"

subsection \<open>The save loop\<close>

definition resolve_company_name :: "dict \<Rightarrow> json" where
  "resolve_company_name startup =
     py_or (py_or (dict_get startup ''Company Name'') (dict_get startup ''company_name''))
           (dict_get_default startup ''name'' (JStr ''''))"

text \<open>
  One pass of the loop body shared by \<open>save_from_file\<close> (both branches) and
  \<open>save_startups_to_db\<close>: the state is \<open>saved_count\<close> and the database.
\<close>

definition save_step :: "(nat \<Rightarrow> nat) \<Rightarrow> nat \<times> db \<Rightarrow> json \<Rightarrow> nat \<times> db" where
  "save_step clock st startup =
    (case startup of
       JObj d \<Rightarrow>
         if truthy (resolve_company_name d) then
           (case save_startup_to_db clock d (snd st) of
              (ok, s') \<Rightarrow> (if ok then fst st + 1 else fst st, s'))
         else st
     | _ \<Rightarrow> st)"

definition save_loop :: "(nat \<Rightarrow> nat) \<Rightarrow> json list \<Rightarrow> db \<Rightarrow> nat \<times> db" where
  "save_loop clock startups s = foldl (save_step clock) (0, s) startups"

text \<open>\<open>save_startups_to_db\<close> of \<open>parse_results_to_db.py\<close>.\<close>

definition save_startups_to_db :: "(nat \<Rightarrow> nat) \<Rightarrow> json list \<Rightarrow> db \<Rightarrow> nat \<times> db" where
  "save_startups_to_db clock startups_list s =
    (if startups_list = [] then (0, s) else save_loop clock startups_list s)"

subsection \<open>The endpoint \<open>save_from_file\<close>\<close>

datatype response =
    HTTPException nat string
  | FileReport string nat nat
  | AllReport string nat "(string \<times> nat) list"

text \<open>
  \<open>FileReport message startups_found startups_saved\<close> and
  \<open>AllReport message total_startups_saved files_processed\<close> are the two success
  payloads. The state of the loop over \<open>all_files\<close> is \<open>total_saved\<close>,
  \<open>processed_files\<close> and the database.
\<close>

definition process_file ::
  "(nat \<Rightarrow> nat) \<Rightarrow> filesystem \<Rightarrow> nat \<times> (string \<times> nat) list \<times> db \<Rightarrow> string
    \<Rightarrow> nat \<times> (string \<times> nat) list \<times> db" where
  "process_file clock fs st file =
    (case st of
       (total_saved, processed_files, s) \<Rightarrow>
         (case save_loop clock (parse_result_file fs file) s of
            (saved_count, s') \<Rightarrow>
              (total_saved + saved_count, processed_files @ [(file, saved_count)], s')))"

definition save_from_file :: "(nat \<Rightarrow> nat) \<Rightarrow> filesystem \<Rightarrow> string \<Rightarrow> db \<Rightarrow> response \<times> db" where
  "save_from_file clock fs filename s =
    (if \<not> path_exists fs filename then
       (if filename = ''all'' then
          (let all_files = result_files fs in
           if all_files = [] then (HTTPException 404 ''No result files found'', s)
           else
             (case foldl (process_file clock fs) (0, [], s) all_files of
                (total_saved, processed_files, s') \<Rightarrow>
                  (AllReport (''Successfully processed '' @ str_int (int (length all_files))
                                @ '' files'')
                     total_saved processed_files, s')))
        else (HTTPException 404 (''File '' @ filename @ '' not found''), s))
     else
       (let startups = parse_result_file fs filename in
        if startups = [] then
          (HTTPException 400 (''No valid startup data found in '' @ filename), s)
        else
          (case save_loop clock startups s of
             (saved_count, s') \<Rightarrow>
               (FileReport (''Successfully processed '' @ filename) (length startups) saved_count,
                s'))))"

text \<open>
  The \<open>all\<close> branch of \<open>main\<close> in \<open>parse_results_to_db.py\<close>: with no file it prints
  and returns (\<open>None\<close>), otherwise it prints the total.
\<close>

definition main_all :: "(nat \<Rightarrow> nat) \<Rightarrow> filesystem \<Rightarrow> db \<Rightarrow> nat option \<times> db" where
  "main_all clock fs s =
    (let all_files = result_files fs in
     if all_files = [] then (None, s)
     else
       (case foldl (\<lambda>st file.
                      case save_startups_to_db clock (parse_result_file fs file) (snd st) of
                        (saved, s') \<Rightarrow> (fst st + saved, s'))
                   (0, s) all_files of
          (total_saved, s') \<Rightarrow> (Some total_saved, s')))"

subsection \<open>The ingestion path of \<open>research_startups.py\<close>\<close>

definition rs_save_all_startups_to_db :: "(nat \<Rightarrow> nat) \<Rightarrow> json list \<Rightarrow> db \<Rightarrow> db" where
  "rs_save_all_startups_to_db clock startups_list s =
    foldl (\<lambda>s' startup. case startup of JObj d \<Rightarrow> rs_save_startup_to_db clock d s' | _ \<Rightarrow> s')
          s startups_list"

definition has_name_key :: "json \<Rightarrow> bool" where
  "has_name_key item =
    (case item of
       JObj d \<Rightarrow> dict_has d ''Company Name'' \<or> dict_has d ''company_name''
     | _ \<Rightarrow> False)"

definition rs_decode :: "string \<Rightarrow> json option" where
  "rs_decode content =
    (case json_loads content of
       Some data \<Rightarrow> Some data
     | None \<Rightarrow>
         (let start_idx = py_find content (CHR ''['');
              end_idx = py_rfind content (CHR '']'')
          in if start_idx \<noteq> - 1 \<and> end_idx \<noteq> - 1 \<and> end_idx > start_idx then
               json_loads (py_slice content start_idx (end_idx + 1))
             else None))"

definition parse_and_save_result_file ::
  "(nat \<Rightarrow> nat) \<Rightarrow> filesystem \<Rightarrow> string \<Rightarrow> db \<Rightarrow> bool \<times> db" where
  "parse_and_save_result_file clock fs filename s =
    (case map_of fs filename of
       None \<Rightarrow> (False, s)
     | Some text \<Rightarrow>
         (let content = py_strip text in
          if content = [] then (False, s)
          else
            (case rs_decode content of
               None \<Rightarrow> (False, s)
             | Some data \<Rightarrow>
                 (case data of
                    JList items \<Rightarrow>
                      (let valid_items = filter has_name_key items in
                       if valid_items \<noteq> [] then
                         (True, rs_save_all_startups_to_db clock valid_items s)
                       else (False, s))
                  | JObj d \<Rightarrow>
                      if has_name_key (JObj d) then
                        (True, rs_save_all_startups_to_db clock [JObj d] s)
                      else (False, s)
                  | _ \<Rightarrow> (False, s)))))"

section \<open>Reading back\<close>

text \<open>
  What \<open>get_all_startups_from_db\<close> builds from one row. A sequence column is decoded
  with \<open>json.loads(x) if x else []\<close>; \<open>None\<close> is the exception of \<open>json.loads\<close>.
\<close>

record startup =
  s_id :: nat
  s_company_name :: string
  s_website_url :: "string option"
  s_founding_year :: sqlval
  s_founders :: json
  s_business_model :: "string option"
  s_industry_sector :: "string option"
  s_funding_rounds :: json
  s_total_capital_raised :: "string option"
  s_current_revenue_estimates :: "string option"
  s_employee_count :: sqlval
  s_customer_user_base_size :: "string option"
  s_key_partnerships :: json
  s_major_competitors :: json
  s_recent_news_developments :: "string option"
  s_created_at :: nat

definition loads_column :: "string option \<Rightarrow> json option" where
  "loads_column x =
    (case x of
       None \<Rightarrow> Some (JList [])
     | Some t \<Rightarrow> if t = [] then Some (JList []) else json_loads t)"

definition row_to_startup :: "row \<Rightarrow> startup option" where
  "row_to_startup r =
    (case (loads_column (founders r), loads_column (funding_rounds r),
           loads_column (key_partnerships r), loads_column (major_competitors r)) of
       (Some f, Some fr, Some kp, Some mc) \<Rightarrow>
         Some \<lparr> s_id = row_id r,
                s_company_name = company_name r,
                s_website_url = website_url r,
                s_founding_year = founding_year r,
                s_founders = f,
                s_business_model = business_model r,
                s_industry_sector = industry_sector r,
                s_funding_rounds = fr,
                s_total_capital_raised = total_capital_raised r,
                s_current_revenue_estimates = current_revenue_estimates r,
                s_employee_count = employee_count r,
                s_customer_user_base_size = customer_user_base_size r,
                s_key_partnerships = kp,
                s_major_competitors = mc,
                s_recent_news_developments = recent_news_developments r,
                s_created_at = created_at r \<rparr>
     | _ \<Rightarrow> None)"

text \<open>
  \<open>ORDER BY created_at DESC\<close>: rows with the same timestamp stay in table order. An
  exception while a row is converted makes \<open>get_all_startups_from_db\<close> return the
  empty list.
\<close>

definition order_by_created_at_desc :: "row list \<Rightarrow> row list" where
  "order_by_created_at_desc rs = sort_key (\<lambda>r. - int (created_at r)) rs"

definition get_all_startups_from_db :: "db \<Rightarrow> startup list" where
  "get_all_startups_from_db s =
    (case those (map row_to_startup (order_by_created_at_desc (rows s))) of
       Some startups \<Rightarrow> startups
     | None \<Rightarrow> [])"

subsection \<open>The endpoint \<open>get_startups\<close>\<close>

text \<open>
  A query parameter that the request leaves out is \<open>None\<close>; \<open>limit\<close> then takes its
  default 100. \<open>if industry:\<close> and \<open>if founding_year:\<close> are Python truth tests, so
  an empty industry and the year 0 filter nothing.
  \<open>s.get('industry_sector', '')\<close> finds the key in every record, so a NULL column gives
  \<open>None\<close> and \<open>.lower()\<close> raises \<open>AttributeError\<close>, which the handler turns into
  status 500. The success payload is the list (\<open>total_returned\<close> is its length).
\<close>

definition industry_matches :: "string \<Rightarrow> startup \<Rightarrow> bool" where
  "industry_matches industry s =
    (case s_industry_sector s of
       Some t \<Rightarrow> py_contains (py_lower t) (py_lower industry)
     | None \<Rightarrow> False)"

definition get_startups ::
  "int option \<Rightarrow> string option \<Rightarrow> int option \<Rightarrow> db \<Rightarrow> (nat \<times> string) + startup list" where
  "get_startups limit' industry founding_year' s =
    (let limit = (case limit' of None \<Rightarrow> 100 | Some n \<Rightarrow> n);
         startups = get_all_startups_from_db s;
         by_industry = (industry \<noteq> None \<and> industry \<noteq> Some []);
         by_year = (founding_year' \<noteq> None \<and> founding_year' \<noteq> Some 0)
     in if by_industry \<and> list_ex (\<lambda>x. s_industry_sector x = None) startups then
          Inl (500, ''Error retrieving startups: '' @ [CHR 0x27] @ ''NoneType'' @ [CHR 0x27]
                     @ '' object has no attribute '' @ [CHR 0x27] @ ''lower'' @ [CHR 0x27])
        else
          (let startups1 =
                 (if by_industry then filter (industry_matches (the industry)) startups
                  else startups);
               startups2 =
                 (if by_year then
                    filter (\<lambda>x. s_founding_year x = SqlInt (the founding_year')) startups1
                  else startups1)
           in Inr (py_upto startups2 limit)))"

subsection \<open>\<open>get_database_stats\<close>\<close>

record stats =
  total_startups :: nat
  industries :: "string list"
  avg_founding_year :: "rat option"
  total_funding_disclosed :: nat

text \<open>
  The four queries. \<open>AVG\<close> is the exact quotient here (Python receives its floating
  point value); \<open>num\<close> is the number the engine reads from a text stored in the
  \<open>INTEGER\<close> column.
\<close>

definition sql_avg :: "(string \<Rightarrow> rat) \<Rightarrow> sqlval list \<Rightarrow> rat option" where
  "sql_avg num vs =
    (let xs = concat (map (\<lambda>v. case v of SqlNull \<Rightarrow> [] | SqlInt i \<Rightarrow> [of_int i]
                                 | SqlText t \<Rightarrow> [num t]) vs)
     in if xs = [] then None else Some (sum_list xs / of_nat (length xs)))"

definition funding_disclosed :: "row \<Rightarrow> bool" where
  "funding_disclosed r =
    (case total_capital_raised r of
       None \<Rightarrow> False
     | Some t \<Rightarrow> t \<noteq> [] \<and> t \<noteq> ''Not disclosed'')"

definition get_database_stats :: "(string \<Rightarrow> rat) \<Rightarrow> db \<Rightarrow> stats" where
  "get_database_stats num s =
    \<lparr> total_startups = length (rows s),
      industries =
        remdups (concat (map (\<lambda>r. case industry_sector r of
                                     None \<Rightarrow> []
                                   | Some t \<Rightarrow> if t \<noteq> [] then [t] else [])
                             (rows s))),
      avg_founding_year = sql_avg num (map founding_year (rows s)),
      total_funding_disclosed = length (filter funding_disclosed (rows s)) \<rparr>"

section \<open>Notions used in the statements\<close>

text \<open>
  The resolution rule in the words of the specification: the candidate keys are tried in
  order, the first non-empty value wins, the default stands in when every candidate is
  empty.
\<close>

definition spec_resolve :: "string list \<Rightarrow> json \<Rightarrow> dict \<Rightarrow> json" where
  "spec_resolve keys dflt d =
    (case filter truthy (map (dict_get d) keys) of [] \<Rightarrow> dflt | v # _ \<Rightarrow> v)"

text \<open>
  What the normalizer does for a scalar field whose last candidate is \<open>last_key\<close>: it
  follows \<open>spec_resolve\<close> when that key is absent or holds a non-empty value; when the
  key is present with an empty value, the earlier keys still win if one is non-empty,
  and otherwise that empty value itself is taken, not the default.
\<close>

definition resolves_scalar :: "dict \<Rightarrow> string list \<Rightarrow> string \<Rightarrow> json \<Rightarrow> json \<Rightarrow> bool" where
  "resolves_scalar d keys last_key dflt x =
    ((map_of d last_key = None \<or> truthy (dict_get d last_key)
        \<longrightarrow> x = spec_resolve (keys @ [last_key]) dflt d)
     \<and> (\<forall>v. map_of d last_key = Some v \<and> \<not> truthy v
        \<longrightarrow> x = (if truthy (spec_resolve keys JNull d) then spec_resolve keys JNull d else v)))"

text \<open>
  What the normalizer does for a sequence field: the serialised value of the label key
  when that key is present, else of the canonical key when present, else \<open>[]\<close>.
\<close>

definition resolves_sequence :: "dict \<Rightarrow> string \<Rightarrow> string \<Rightarrow> string \<Rightarrow> bool" where
  "resolves_sequence d label canonical x =
    ((\<forall>v. map_of d label = Some v \<longrightarrow> x = json_dumps v)
     \<and> (\<forall>v. map_of d label = None \<and> map_of d canonical = Some v \<longrightarrow> x = json_dumps v)
     \<and> (map_of d label = None \<and> map_of d canonical = None \<longrightarrow> x = ''[]''))"

text \<open>
  The value a record carries for a sequence field, and what it means that \<open>x\<close> is this
  value read back.
\<close>

definition sequence_value :: "dict \<Rightarrow> string \<Rightarrow> string \<Rightarrow> json" where
  "sequence_value d label canonical =
     dict_get_default d label (dict_get_default d canonical (JList []))"

definition reads_back :: "dict \<Rightarrow> string \<Rightarrow> string \<Rightarrow> json \<Rightarrow> bool" where
  "reads_back d label canonical x =
    ((\<forall>v. map_of d label = Some v \<longrightarrow> x = v)
     \<and> (\<forall>v. map_of d label = None \<and> map_of d canonical = Some v \<longrightarrow> x = v)
     \<and> (map_of d label = None \<and> map_of d canonical = None \<longrightarrow> x = JList []))"

text \<open>A candidate with a resolvable company name.\<close>

definition has_company_name :: "json \<Rightarrow> bool" where
  "has_company_name x = (case x of JObj d \<Rightarrow> truthy (resolve_company_name d) | _ \<Rightarrow> False)"

definition is_all_report :: "response \<Rightarrow> bool" where
  "is_all_report r = (case r of AllReport m t ps \<Rightarrow> True | _ \<Rightarrow> False)"

text \<open>
  A database whose rows all convert to records (no sequence column holds text that
  \<open>json.loads\<close> refuses), the record of a row, and a database without an empty
  company name.
\<close>

definition readable :: "db \<Rightarrow> bool" where
  "readable s = list_all (\<lambda>r. row_to_startup r \<noteq> None) (rows s)"

definition record_of :: "row \<Rightarrow> startup" where
  "record_of r = the (row_to_startup r)"

definition named :: "db \<Rightarrow> bool" where
  "named s = list_all (\<lambda>r. company_name r \<noteq> []) (rows s)"

text \<open>
  The records \<open>get_startups\<close> keeps: the industry filter counts when it is given and
  not empty, the year filter when it is given and not 0.
\<close>

definition keeps :: "string option \<Rightarrow> int option \<Rightarrow> startup \<Rightarrow> bool" where
  "keeps industry year x =
    ((case industry of
        None \<Rightarrow> True
      | Some q \<Rightarrow> q = [] \<or> (\<exists>t pre post. s_industry_sector x = Some t
                                 \<and> py_lower t = pre @ py_lower q @ post))
     \<and> (case year of None \<Rightarrow> True | Some y \<Rightarrow> y = 0 \<or> s_founding_year x = SqlInt y))"

text \<open>Auxiliary notions of the proofs about \<open>json.dumps\<close> and \<open>json.loads\<close>.\<close>

definition ok_follow :: "string \<Rightarrow> bool" where
  "ok_follow r = (r = [] \<or> (\<not> is_digit (hd r) \<and> \<not> float_start r))"

definition value_start :: "char \<Rightarrow> bool" where
  "value_start c = (c = dquote \<or> c = CHR ''{'' \<or> c = CHR ''['' \<or> c = CHR ''n'' \<or> c = CHR ''t''
      \<or> c = CHR ''f'' \<or> c = CHR ''-'' \<or> is_digit c)"

definition member_text :: "string \<times> json \<Rightarrow> string" where
  "member_text p = json_quote (fst p) @ '': '' @ json_dumps (snd p)"

section \<open>Concrete inputs\<close>

text \<open>
  A clock that always reads 0; the file text \<open>[{"name": "A"}]\<close>; the same kind of
  text with the company name under the canonical key; three records of which the second
  has no name; an array inside prose; two raw records; and two databases built by
  ingestion.
\<close>

definition clock0 :: "nat \<Rightarrow> nat" where
  "clock0 i = 0"

definition one_record_text :: string where
  "one_record_text = ''[{'' @ qt ''name'' @ '': '' @ qt ''A'' @ ''}]''"

definition canonical_key_text :: string where
  "canonical_key_text = ''[{'' @ qt ''company_name'' @ '': '' @ qt ''Acme'' @ ''}]''"

definition three_records_text :: string where
  "three_records_text =
     ''[{'' @ qt ''name'' @ '': '' @ qt ''A'' @ ''}, {'' @ qt ''website'' @ '': '' @ qt ''x.io''
       @ ''}, {'' @ qt ''Company Name'' @ '': '' @ qt ''C'' @ ''}]''"

definition prose_text :: string where
  "prose_text = ''Here are the results: '' @ one_record_text @ '' -- end of list.''"

definition sample_record :: dict where
  "sample_record =
    [(''name'', JStr ''Beta Inc''), (''Founding Year'', JInt 0), (''founded'', JInt 0),
     (''Founders'', JList []), (''founders'', JList [JStr ''A'']),
     (''funding_rounds'', JList [JObj [(''Amount'', JStr ''$1M''), (''Date'', JStr ''May 2021'')]])]"

definition acme_record :: dict where
  "acme_record =
     [(''company_name'', JStr ''Acme''), (''founders'', JList [JStr ''A'', JStr ''B'']),
      (''founding_year'', JInt 2021),
      (''Funding Rounds'', JList [JObj [(''Amount'', JStr ''$2 million''), (''Date'', JStr ''May 2021'')]])]"

definition year_db :: db where
  "year_db = snd (save_startup_to_db clock0
                    [(''name'', JStr ''A''), (''industry'', JStr ''FinTech''), (''founded'', JInt 2020)]
                    empty_db)"

definition null_industry_db :: db where
  "null_industry_db =
     snd (save_startup_to_db clock0 [(''name'', JStr ''B''), (''industry'', JNull)] year_db)"

section \<open>\<open>json.loads\<close> inverts \<open>json.dumps\<close>\<close>

subsection \<open>Integers\<close>

lemma char_of_48: "char_of (48::nat) = CHR ''0''"
  by code_simp

lemma of_char_less_256: "(of_char c :: nat) < 256"
  using of_char_mod_256 [of c, where ?'a = nat] by (metis mod_less_divisor zero_less_numeral)

lemma digits_of_nonempty: "digits_of n \<noteq> []"
  by (subst digits_of.simps) simp

lemma is_digit_char_of: "(k::nat) < 10 \<Longrightarrow> is_digit (char_of (48 + k))"
  by (simp add: is_digit_def)

lemma digits_of_all_digits: "c \<in> set (digits_of n) \<Longrightarrow> is_digit c"
proof (induction n rule: digits_of.induct)
  case (1 n)
  show ?case
  proof (cases "n < 10")
    case True
    with "1.prems" show ?thesis
      by (subst (asm) digits_of.simps) (simp add: is_digit_char_of)
  next
    case False
    with "1.prems" have "c \<in> set (digits_of (n div 10)) \<or> c = char_of (48 + n mod 10)"
      by (subst (asm) digits_of.simps) (auto split: if_splits)
    then show ?thesis
      using "1.IH" False by (auto simp: is_digit_char_of)
  qed
qed

lemma nat_of_digits_snoc:
  "nat_of_digits (ds @ [c]) = 10 * nat_of_digits ds + ((of_char c :: nat) - 48)"
  by (simp add: nat_of_digits_def)

lemma nat_of_digits_digits_of: "nat_of_digits (digits_of n) = n"
proof (induction n rule: digits_of.induct)
  case (1 n)
  show ?case
  proof (cases "n < 10")
    case True
    then show ?thesis
      by (subst digits_of.simps) (simp add: nat_of_digits_def)
  next
    case False
    then have "nat_of_digits (digits_of n) = 10 * nat_of_digits (digits_of (n div 10)) + n mod 10"
      by (subst digits_of.simps) (simp add: nat_of_digits_snoc)
    then show ?thesis using "1.IH" False by simp
  qed
qed

lemma hd_digits_of_zero: "hd (digits_of n) = CHR ''0'' \<longleftrightarrow> n = 0"
proof (induction n rule: digits_of.induct)
  case (1 n)
  show ?case
  proof (cases "n < 10")
    case True
    then have "of_char (hd (digits_of n)) = 48 + n"
      by (subst digits_of.simps) simp
    moreover have "(of_char (CHR ''0'') :: nat) = 48" by simp
    ultimately show ?thesis
      by (metis add_cancel_right_right of_char_eq_iff)
  next
    case False
    then have "hd (digits_of n) = hd (digits_of (n div 10))"
      by (subst digits_of.simps) (simp add: digits_of_nonempty)
    then show ?thesis using "1.IH" False by simp
  qed
qed

lemma takeWhile_digits_of:
  "r = [] \<or> \<not> is_digit (hd r) \<Longrightarrow> takeWhile is_digit (digits_of n @ r) = digits_of n"
  by (cases r) (auto simp: digits_of_all_digits)

text \<open>What may follow a value for its text to be read back alone.\<close>

lemma parse_number_str_int:
  assumes "ok_follow r"
  shows "parse_number (str_int i @ r) = Some (JInt i, r)"
proof (cases "i < 0")
  case True
  define n where "n = nat (- i)"
  have n: "n \<noteq> 0" "i = - int n" using True by (simp_all add: n_def)
  obtain d ds where dd: "digits_of n = d # ds"
    using digits_of_nonempty [of n] by (cases "digits_of n") auto
  have d: "is_digit d" "d \<noteq> CHR ''0''"
    using digits_of_all_digits [of d n] hd_digits_of_zero [of n] n dd by auto
  have tw: "takeWhile is_digit (d # ds @ r) = d # ds"
  proof -
    have "takeWhile is_digit (digits_of n @ r) = digits_of n"
      using takeWhile_digits_of [of r n] assms by (auto simp: ok_follow_def)
    then show ?thesis unfolding dd by simp
  qed
  have fs: "\<not> float_start r" using assms by (auto simp: ok_follow_def float_start_def)
  have "nat_of_digits (d # ds) = n" using nat_of_digits_digits_of [of n] dd by simp
  then show ?thesis
    using True d tw fs n dd
    by (simp add: str_int_def parse_number_def n_def [symmetric] Let_def del: takeWhile.simps)
next
  case False
  define n where "n = nat i"
  have n: "i = int n" using False by (simp add: n_def)
  obtain d ds where dd: "digits_of n = d # ds"
    using digits_of_nonempty [of n] by (cases "digits_of n") auto
  have d: "is_digit d"
    using digits_of_all_digits [of d n] dd by auto
  then have dm: "d \<noteq> CHR ''-''" by (auto simp: is_digit_def)
  have tw: "takeWhile is_digit (d # ds @ r) = d # ds"
  proof -
    have "takeWhile is_digit (digits_of n @ r) = digits_of n"
      using takeWhile_digits_of [of r n] assms by (auto simp: ok_follow_def)
    then show ?thesis unfolding dd by simp
  qed
  have fs: "\<not> float_start r" using assms by (auto simp: ok_follow_def float_start_def)
  have nd: "nat_of_digits (d # ds) = n" using nat_of_digits_digits_of [of n] dd by simp
  show ?thesis
  proof (cases "d = CHR ''0''")
    case True
    then have "n = 0" using hd_digits_of_zero [of n] dd by simp
    then have "digits_of n = ''0''" by (subst digits_of.simps) (simp add: char_of_48)
    then show ?thesis
      using False fs n \<open>n = 0\<close>
      by (simp add: str_int_def parse_number_def n_def [symmetric] Let_def is_digit_def nat_of_digits_def)
  next
    case F: False
    then show ?thesis
      using False d dm tw fs n dd nd
      by (simp add: str_int_def parse_number_def n_def [symmetric] Let_def del: takeWhile.simps)
  qed
qed

subsection \<open>Strings\<close>

lemma hex_val_hex_digit: "k < 16 \<Longrightarrow> hex_val (hex_digit k) = Some k"
  by (auto simp: hex_val_def hex_digit_def Let_def)

lemma hex4_byte:
  assumes "n < 256"
  shows "hex4 (CHR ''0'') (CHR ''0'') (hex_digit (n div 16)) (hex_digit (n mod 16)) = Some n"
proof -
  have "n div 16 < 16" using assms by simp
  then have "hex_val (hex_digit (n div 16)) = Some (n div 16)" by (rule hex_val_hex_digit)
  moreover have "hex_val (hex_digit (n mod 16)) = Some (n mod 16)" by (rule hex_val_hex_digit) simp
  moreover have "hex_val (CHR ''0'') = Some 0" by (simp add: hex_val_def)
  ultimately show ?thesis by (simp add: hex4_def)
qed

lemma scanstring_escape_char:
  assumes "scanstring rest = Some (s, r)"
  shows "scanstring (json_escape_char c @ rest) = Some (c # s, r)"
proof -
  have u: "hex4 (CHR ''0'') (CHR ''0'') (hex_digit (of_char c div 16)) (hex_digit (of_char c mod 16))
            = Some (of_char c)"
    by (rule hex4_byte) (rule of_char_less_256)
  show ?thesis
    using assms u of_char_less_256 [of c]
    by (auto simp: json_escape_char_def unescape_def cons_fst_def)
qed

lemma scanstring_escaped:
  "scanstring (concat (map json_escape_char s) @ dquote # r) = Some (s, r)"
  by (induction s) (simp_all add: scanstring_escape_char)

subsection \<open>Values\<close>

lemma parse_value_string:
  "parse_value (dquote # cs) =
     (case scanstring cs of None \<Rightarrow> None | Some (t, r) \<Rightarrow> Some (JStr t, r))"
  by (subst parse_value.simps) simp

lemma parse_value_object:
  "parse_value (CHR ''{'' # cs) =
     (case skip_ws cs of
        [] \<Rightarrow> None
      | d # ds \<Rightarrow>
          if d = CHR ''}'' then Some (JObj [], ds)
          else if d = dquote then
            (case parse_members ds of None \<Rightarrow> None | Some (ps, r) \<Rightarrow> Some (JObj (py_dict ps), r))
          else None)"
  by (subst parse_value.simps) simp

lemma parse_value_array:
  "parse_value (CHR ''['' # cs) =
     (case skip_ws cs of
        [] \<Rightarrow> None
      | d # ds \<Rightarrow>
          if d = CHR '']'' then Some (JList [], ds)
          else (case parse_elems (d # ds) of None \<Rightarrow> None | Some (vs, r) \<Rightarrow> Some (JList vs, r)))"
  by (subst parse_value.simps) simp

lemma parse_value_number:
  assumes "c = CHR ''-'' \<or> is_digit c"
  shows "parse_value (c # cs) = parse_number (c # cs)"
proof -
  have "c \<noteq> dquote" "c \<noteq> CHR ''{''" "c \<noteq> CHR ''[''" "c \<noteq> CHR ''n''" "c \<noteq> CHR ''t''" "c \<noteq> CHR ''f''"
    using assms by (auto simp: is_digit_def)
  then show ?thesis by (subst parse_value.simps) simp
qed

lemma str_int_start: "\<exists>c cs. str_int i = c # cs \<and> (c = CHR ''-'' \<or> is_digit c)"
proof (cases "i < 0")
  case True
  then show ?thesis by (simp add: str_int_def)
next
  case False
  obtain d ds where dd: "digits_of (nat i) = d # ds"
    using digits_of_nonempty [of "nat i"] by (cases "digits_of (nat i)") auto
  then have "is_digit d" using digits_of_all_digits [of d "nat i"] by simp
  then show ?thesis using False dd by (simp add: str_int_def)
qed

lemma json_dumps_start: "\<exists>c cs. json_dumps v = c # cs \<and> value_start c"
proof (cases v)
  case (JInt i)
  then show ?thesis using str_int_start [of i] by (auto simp: value_start_def)
qed (auto simp: value_start_def json_quote_def)

lemma skip_ws_value_start: "value_start c \<Longrightarrow> skip_ws (c # cs) = c # cs"
  by (auto simp: value_start_def skip_ws_def is_json_ws_def is_digit_def)

lemma skip_ws_dumps [simp]: "skip_ws (json_dumps v @ r) = json_dumps v @ r"
  using json_dumps_start [of v] by (auto simp: skip_ws_value_start)

lemma skip_ws_space_dumps [simp]: "skip_ws (CHR '' '' # json_dumps v @ r) = json_dumps v @ r"
  using skip_ws_dumps [of v r] by (simp add: skip_ws_def is_json_ws_def)

lemma ok_follow_delims [simp]:
  "ok_follow []" "ok_follow (CHR '','' # r)" "ok_follow (CHR '']'' # r)" "ok_follow (CHR ''}'' # r)"
  by (simp_all add: ok_follow_def is_digit_def float_start_def)

lemma parse_elems_dumps:
  assumes "\<And>x r. x \<in> set (y # ys) \<Longrightarrow> ok_follow r \<Longrightarrow> parse_value (json_dumps x @ r) = Some (x, r)"
  shows "parse_elems (json_dumps y @ concat (map (\<lambda>z. '', '' @ json_dumps z) ys) @ CHR '']'' # r)
           = Some (y # ys, r)"
  using assms
proof (induction ys arbitrary: y)
  case Nil
  have "parse_value (json_dumps y @ CHR '']'' # r) = Some (y, CHR '']'' # r)"
    by (rule Nil) simp_all
  moreover obtain c cs where "json_dumps y = c # cs" using json_dumps_start [of y] by blast
  ultimately show ?case
    by (subst parse_elems.simps) (simp add: skip_ws_def is_json_ws_def)
next
  case (Cons z zs)
  let ?tail = "concat (map (\<lambda>z. '', '' @ json_dumps z) zs) @ CHR '']'' # r"
  have pv: "parse_value (json_dumps y @ CHR '','' # CHR '' '' # json_dumps z @ ?tail)
              = Some (y, CHR '','' # CHR '' '' # json_dumps z @ ?tail)"
    by (rule Cons.prems) simp_all
  have rest: "parse_elems (json_dumps z @ ?tail) = Some (z # zs, r)"
    by (rule Cons.IH) (rule Cons.prems, simp_all)
  obtain c cs where "json_dumps y = c # cs" using json_dumps_start [of y] by blast
  then show ?case
    using pv rest
    by (subst parse_elems.simps) (simp add: skip_ws_def [of "CHR '','' # _"] is_json_ws_def cons_fst_def)
qed

lemma parse_members_dumps:
  assumes "\<And>x r. x \<in> snd ` set (p # ps) \<Longrightarrow> ok_follow r \<Longrightarrow> parse_value (json_dumps x @ r) = Some (x, r)"
  shows "parse_members (tl (member_text p) @ concat (map (\<lambda>q. '', '' @ member_text q) ps) @ CHR ''}'' # r)
           = Some (p # ps, r)"
  using assms
proof (induction ps arbitrary: p)
  case Nil
  obtain k v where p: "p = (k, v)" by (cases p)
  have sc: "scanstring (tl (member_text p) @ CHR ''}'' # r)
              = Some (k, CHR '':'' # CHR '' '' # json_dumps v @ CHR ''}'' # r)"
    by (simp add: member_text_def p json_quote_def scanstring_escaped)
  have pv: "parse_value (json_dumps v @ CHR ''}'' # r) = Some (v, CHR ''}'' # r)"
    by (rule Nil) (simp_all add: p)
  show ?case
    using sc pv p
    by (subst parse_members.simps)
       (simp add: skip_ws_def [of "CHR '':'' # _"] skip_ws_def [of "CHR ''}'' # _"] is_json_ws_def
          member_text_def json_quote_def)
next
  case (Cons q qs)
  obtain k v where p: "p = (k, v)" by (cases p)
  let ?tail = "concat (map (\<lambda>q. '', '' @ member_text q) qs) @ CHR ''}'' # r"
  let ?next = "CHR '','' # CHR '' '' # member_text q @ ?tail"
  have sc: "scanstring (tl (member_text p) @ ?next)
              = Some (k, CHR '':'' # CHR '' '' # json_dumps v @ ?next)"
    by (simp add: member_text_def p json_quote_def scanstring_escaped)
  have pv: "parse_value (json_dumps v @ ?next) = Some (v, ?next)"
    by (rule Cons.prems) (simp_all add: p)
  have rest: "parse_members (tl (member_text q) @ ?tail) = Some (q # qs, r)"
    by (rule Cons.IH) (rule Cons.prems, simp_all)
  have mq: "member_text q = dquote # tl (member_text q)"
    by (simp add: member_text_def json_quote_def)
  have sk: "skip_ws (CHR '' '' # member_text q @ ?tail) = dquote # tl (member_text q) @ ?tail"
    by (subst mq) (simp add: skip_ws_def is_json_ws_def)
  show ?case
    using sc pv rest sk p
    by (subst parse_members.simps)
       (simp add: skip_ws_def [of "CHR '':'' # _"] skip_ws_def [of "CHR '','' # _"] is_json_ws_def
          cons_fst_def member_text_def json_quote_def)
qed

lemma update_fresh: "k \<notin> fst ` set ps \<Longrightarrow> AList.update k v ps = ps @ [(k, v)]"
  by (induction ps) auto

lemma py_dict_foldl:
  "distinct (map fst (acc @ ps)) \<Longrightarrow> foldl (\<lambda>d (k, v). AList.update k v d) acc ps = acc @ ps"
proof (induction ps arbitrary: acc)
  case Nil
  then show ?case by simp
next
  case (Cons p ps)
  obtain k v where p: "p = (k, v)" by (cases p)
  have "AList.update k v acc = acc @ [(k, v)]"
    using Cons.prems p by (intro update_fresh) auto
  moreover have "distinct (map fst ((acc @ [(k, v)]) @ ps))" using Cons.prems p by simp
  ultimately show ?case using Cons.IH [of "acc @ [(k, v)]"] p by simp
qed

lemma py_dict_distinct: "distinct (map fst ps) \<Longrightarrow> py_dict ps = ps"
  using py_dict_foldl [of "[]" ps] by (simp add: py_dict_def)

lemma parse_value_json_dumps:
  "wf_json v \<Longrightarrow> ok_follow r \<Longrightarrow> parse_value (json_dumps v @ r) = Some (v, r)"
proof (induction v arbitrary: r)
  case JNull
  show ?case by (subst parse_value.simps) (simp add: literal_word_def)
next
  case (JBool b)
  show ?case by (subst parse_value.simps) (simp add: literal_word_def)
next
  case (JInt i)
  obtain c cs where c: "str_int i = c # cs" "c = CHR ''-'' \<or> is_digit c"
    using str_int_start [of i] by blast
  have "parse_number (c # cs @ r) = Some (JInt i, r)"
    using parse_number_str_int [OF JInt.prems(2), of i] c by simp
  then show ?case
    using c by (simp add: parse_value_number)
next
  case (JStr s)
  show ?case
    by (simp add: json_quote_def parse_value_string scanstring_escaped)
next
  case (JList xs)
  show ?case
  proof (cases xs)
    case Nil
    then show ?thesis
      by (simp add: parse_value_array join_sep_def skip_ws_def is_json_ws_def)
  next
    case (Cons y ys)
    let ?body = "json_dumps y @ concat (map (\<lambda>z. '', '' @ json_dumps z) ys) @ CHR '']'' # r"
    have el: "parse_elems ?body = Some (y # ys, r)"
    proof (rule parse_elems_dumps)
      fix x r' assume "x \<in> set (y # ys)" "ok_follow r'"
      then show "parse_value (json_dumps x @ r') = Some (x, r')"
        using JList.IH [of x r'] JList.prems(1) Cons by (auto simp: list_all_iff)
    qed
    obtain c cs where c: "json_dumps y = c # cs" "value_start c"
      using json_dumps_start [of y] by blast
    then have ne: "c \<noteq> CHR '']''" by (auto simp: value_start_def is_digit_def)
    have sk: "skip_ws ?body = ?body" by simp
    have "json_dumps (JList xs) @ r = CHR ''['' # ?body"
      by (simp add: Cons join_sep_def comp_def)
    then show ?thesis
      using el sk c ne Cons
      by (simp add: parse_value_array del: skip_ws_dumps)
  qed
next
  case (JObj kvs)
  show ?case
  proof (cases kvs)
    case Nil
    then show ?thesis
      by (simp add: parse_value_object join_sep_def skip_ws_def is_json_ws_def py_dict_def)
  next
    case (Cons p ps)
    let ?body = "tl (member_text p) @ concat (map (\<lambda>q. '', '' @ member_text q) ps) @ CHR ''}'' # r"
    have mem: "parse_members ?body = Some (p # ps, r)"
    proof (rule parse_members_dumps)
      fix x r' assume "x \<in> snd ` set (p # ps)" "ok_follow r'"
      then have "x \<in> snd ` set kvs" using Cons by simp
      then obtain q where q: "q \<in> set kvs" "x = snd q" by blast
      then have "wf_json x" using JObj.prems(1) by (auto simp: list_all_iff)
      moreover have "x \<in> Basic_BNFs.snds q" by (simp add: q(2) snds.intros)
      ultimately show "parse_value (json_dumps x @ r') = Some (x, r')"
        using JObj.IH [of q x r'] q \<open>ok_follow r'\<close> by simp
    qed
    have dict: "py_dict (p # ps) = p # ps"
      using JObj.prems(1) Cons by (intro py_dict_distinct) simp
    have mp: "member_text p = dquote # tl (member_text p)"
      by (simp add: member_text_def json_quote_def)
    have "json_dumps (JObj kvs) @ r =
            CHR ''{'' # member_text p @ concat (map (\<lambda>q. '', '' @ member_text q) ps) @ CHR ''}'' # r"
      by (simp add: Cons join_sep_def comp_def member_text_def case_prod_beta)
    then have "json_dumps (JObj kvs) @ r = CHR ''{'' # dquote # ?body"
      using mp by simp
    then show ?thesis
      using mem dict Cons
      by (simp add: parse_value_object skip_ws_def is_json_ws_def)
  qed
qed

lemma json_loads_dumps: "wf_json v \<Longrightarrow> json_loads (json_dumps v) = Some v"
  using parse_value_json_dumps [of v "[]"] skip_ws_dumps [of v "[]"]
  by (simp add: json_loads_def skip_ws_def [of "[]"])

lemma json_dumps_nonempty: "json_dumps v \<noteq> []"
  using json_dumps_start [of v] by auto

subsection \<open>The parsers consume input and return Python values\<close>

lemma parse_number_shorter: "parse_number s = Some (v, r) \<Longrightarrow> length r < length s"
proof (cases s)
  case Nil
  assume "parse_number s = Some (v, r)"
  then show ?thesis using Nil by (simp add: parse_number_def)
next
  case (Cons x xs)
  assume a: "parse_number s = Some (v, r)"
  show ?thesis
  proof (cases "x = CHR ''-''")
    case True
    then show ?thesis
      using a Cons
      by (cases xs) (auto simp: parse_number_def Let_def split: if_splits)
  next
    case False
    then show ?thesis
      using a Cons
      by (auto simp: parse_number_def Let_def split: if_splits)
  qed
qed

lemma literal_word_shorter:
  "w \<noteq> [] \<Longrightarrow> s \<noteq> [] \<Longrightarrow> literal_word w v s = Some (x, r) \<Longrightarrow> length r < length s"
  by (cases w; cases s) (auto simp: literal_word_def split: if_splits)

lemma parse_consumes:
  "(\<forall>v r. parse_value s = Some (v, r) \<longrightarrow> length r < length s)"
  "(\<forall>vs r. parse_elems s1 = Some (vs, r) \<longrightarrow> length r < length s1)"
  "(\<forall>ps r. parse_members s2 = Some (ps, r) \<longrightarrow> length r < length s2)"
proof (induction s and s1 and s2 rule: parse_value_parse_elems_parse_members.induct)
  case (1 s)
  show ?case
  proof (intro allI impI)
    fix v r assume a: "parse_value s = Some (v, r)"
    then obtain c cs where s: "s = c # cs"
      by (cases s) (auto simp: parse_value.simps)
    consider (str) "c = dquote" | (obj) "c = CHR ''{''" | (arr) "c = CHR ''[''"
      | (wrd) "c = CHR ''n'' \<or> c = CHR ''t'' \<or> c = CHR ''f''"
      | (num) "c \<noteq> dquote" "c \<noteq> CHR ''{''" "c \<noteq> CHR ''[''" "c \<noteq> CHR ''n''" "c \<noteq> CHR ''t''" "c \<noteq> CHR ''f''"
      by blast
    then show "length r < length s"
    proof cases
      case str
      then show ?thesis
        using a s scanstring_shorter [of cs _ r]
        by (auto simp: parse_value.simps split: option.splits)
    next
      case obj
      then obtain d ds where sk: "skip_ws cs = d # ds"
        using a s by (cases "skip_ws cs") (auto simp: parse_value.simps)
      have l: "length ds < length cs" using sk by (rule skip_ws_Cons_length)
      show ?thesis
      proof (cases "d = CHR ''}''")
        case True
        then show ?thesis using a s obj sk l by (auto simp: parse_value.simps)
      next
        case False
        then have dq: "d = dquote" using a s obj sk by (auto simp: parse_value.simps split: if_splits)
        then obtain ps where "parse_members ds = Some (ps, r)"
          using a s obj sk False by (auto simp: parse_value.simps split: option.splits)
        then have "length r < length ds"
          using "1.IH"(1) [OF s _ obj sk False dq] obj by simp
        then show ?thesis using l s by simp
      qed
    next
      case arr
      then obtain d ds where sk: "skip_ws cs = d # ds"
        using a s by (cases "skip_ws cs") (auto simp: parse_value.simps)
      have l: "length ds < length cs" using sk by (rule skip_ws_Cons_length)
      show ?thesis
      proof (cases "d = CHR '']''")
        case True
        then show ?thesis using a s arr sk l by (auto simp: parse_value.simps)
      next
        case False
        then obtain vs where "parse_elems (d # ds) = Some (vs, r)"
          using a s arr sk by (auto simp: parse_value.simps split: option.splits)
        then have "length r < length (d # ds)"
          using "1.IH"(2) [OF s _ _ arr sk False] arr by simp
        then show ?thesis using l s by simp
      qed
    next
      case wrd
      then show ?thesis
        using a s
        by (auto simp: parse_value.simps dest!: literal_word_shorter [rotated 2])
    next
      case num
      then show ?thesis
        using a s parse_number_shorter [of s v r] by (simp add: parse_value.simps)
    qed
  qed
next
  case (2 s)
  show ?case
  proof (intro allI impI)
    fix vs r assume a: "parse_elems s = Some (vs, r)"
    then obtain v r0 where pv: "parse_value s = Some (v, r0)"
      by (subst (asm) parse_elems.simps) (auto split: option.splits)
    have g: "length r0 < length s" using "2.IH"(1) pv by simp
    from a pv g obtain c r1 where sk: "skip_ws r0 = c # r1"
      by (subst (asm) parse_elems.simps) (cases "skip_ws r0", auto)
    have l: "length r1 < length r0" using sk by (rule skip_ws_Cons_length)
    show "length r < length s"
    proof (cases "c = CHR '']''")
      case True
      then show ?thesis
        using a pv g sk l by (subst (asm) parse_elems.simps) auto
    next
      case False
      then have cm: "c = CHR '',''"
        using a pv g sk by (subst (asm) parse_elems.simps) (auto split: if_splits)
      then obtain vs' where "parse_elems (skip_ws r1) = Some (vs', r)"
        using a pv g sk False
        by (subst (asm) parse_elems.simps) (auto simp: cons_fst_def split: option.splits)
      then have "length r < length (skip_ws r1)"
        using "2.IH"(2) [OF pv _ g sk False cm] by simp
      then show ?thesis using l g skip_ws_length [of r1] by linarith
    qed
  qed
next
  case (3 s)
  show ?case
  proof (intro allI impI)
    fix ps r assume a: "parse_members s = Some (ps, r)"
    then obtain k r0 where sc: "scanstring s = Some (k, r0)"
      by (subst (asm) parse_members.simps) (auto split: option.splits)
    have l0: "length r0 < length s" using sc by (rule scanstring_shorter)
    from a sc obtain c r1 where sk: "skip_ws r0 = c # r1"
      by (subst (asm) parse_members.simps) (cases "skip_ws r0", auto)
    have l1: "length r1 < length r0" using sk by (rule skip_ws_Cons_length)
    have col: "\<not> c \<noteq> CHR '':''"
      using a sc sk by (subst (asm) parse_members.simps) (auto split: if_splits)
    from a sc sk col obtain v r2 where pv: "parse_value (skip_ws r1) = Some (v, r2)"
      by (subst (asm) parse_members.simps) (auto split: option.splits)
    have "length r2 < length (skip_ws r1)"
      using "3.IH"(1) [OF sc _ sk col] pv by simp
    then have g: "length r2 < length s" using l0 l1 skip_ws_length [of r1] by linarith
    from a sc sk col pv g obtain d r3 where sk2: "skip_ws r2 = d # r3"
      by (subst (asm) parse_members.simps) (cases "skip_ws r2", auto)
    have l3: "length r3 < length r2" using sk2 by (rule skip_ws_Cons_length)
    show "length r < length s"
    proof (cases "d = CHR ''}''")
      case True
      then show ?thesis
        using a sc sk col pv g sk2 l3 by (subst (asm) parse_members.simps) auto
    next
      case False
      then have cm: "d = CHR '',''"
        using a sc sk col pv g sk2 by (subst (asm) parse_members.simps) (auto split: if_splits)
      from a sc sk col pv g sk2 False cm obtain q r4 where sk3: "skip_ws r3 = q # r4"
        by (subst (asm) parse_members.simps) (cases "skip_ws r3", auto)
      have l4: "length r4 < length r3" using sk3 by (rule skip_ws_Cons_length)
      have dq: "q = dquote"
        using a sc sk col pv g sk2 False cm sk3
        by (subst (asm) parse_members.simps) (auto split: if_splits)
      then obtain ps' where "parse_members r4 = Some (ps', r)"
        using a sc sk col pv g sk2 False cm sk3
        by (subst (asm) parse_members.simps) (auto simp: cons_fst_def split: option.splits)
      then have "length r < length r4"
        using "3.IH"(2) [OF sc _ sk col pv _ g sk2 False cm sk3 dq] by simp
      then show ?thesis using l4 l3 g by linarith
    qed
  qed
qed

lemma parse_elems_unguarded:
  "parse_elems s =
    (case parse_value s of
       None \<Rightarrow> None
     | Some (v, r) \<Rightarrow>
         (case skip_ws r of
            [] \<Rightarrow> None
          | c # r1 \<Rightarrow>
              if c = CHR '']'' then Some ([v], r1)
              else if c = CHR '','' then cons_fst v (parse_elems (skip_ws r1))
              else None))"
  by (subst parse_elems.simps) (auto simp: parse_consumes(1) split: option.splits)

lemma parse_members_unguarded:
  "parse_members s =
    (case scanstring s of
       None \<Rightarrow> None
     | Some (k, r) \<Rightarrow>
         (case skip_ws r of
            [] \<Rightarrow> None
          | c # r1 \<Rightarrow>
              if c \<noteq> CHR '':'' then None
              else
                (case parse_value (skip_ws r1) of
                   None \<Rightarrow> None
                 | Some (v, r2) \<Rightarrow>
                     (case skip_ws r2 of
                        [] \<Rightarrow> None
                      | d # r3 \<Rightarrow>
                          if d = CHR ''}'' then Some ([(k, v)], r3)
                          else if d = CHR '','' then
                            (case skip_ws r3 of
                               [] \<Rightarrow> None
                             | q # r4 \<Rightarrow>
                                 if q = dquote then cons_fst (k, v) (parse_members r4)
                                 else None)
                          else None))))"
proof -
  have g: "length r2 < length s"
    if "scanstring s = Some (k, r)" "skip_ws r = c # r1" "parse_value (skip_ws r1) = Some (v, r2)"
    for k r c r1 v r2
  proof -
    have "length r2 < length (skip_ws r1)" using that(3) parse_consumes(1) by blast
    moreover have "length r1 < length r" using that(2) by (rule skip_ws_Cons_length)
    moreover have "length r < length s" using that(1) by (rule scanstring_shorter)
    ultimately show ?thesis using skip_ws_length [of r1] by linarith
  qed
  show ?thesis
    by (subst parse_members.simps) (auto simp: g split: option.splits list.splits)
qed

lemma update_keys: "fst ` set (AList.update k v d) = insert k (fst ` set d)"
  by (induction d) auto

lemma update_values: "snd ` set (AList.update k v d) \<subseteq> insert v (snd ` set d)"
  by (induction d) auto

lemma py_dict_foldl_wf:
  "distinct (map fst acc) \<Longrightarrow>
   distinct (map fst (foldl (\<lambda>d (k, v). AList.update k v d) acc ps))
   \<and> snd ` set (foldl (\<lambda>d (k, v). AList.update k v d) acc ps) \<subseteq> snd ` set acc \<union> snd ` set ps"
proof (induction ps arbitrary: acc)
  case Nil
  then show ?case by simp
next
  case (Cons p ps)
  obtain k v where p: "p = (k, v)" by (cases p)
  have d: "distinct (map fst (AList.update k v acc))"
    using Cons.prems by (simp add: distinct_update)
  let ?F = "foldl (\<lambda>d (k, v). AList.update k v d) (AList.update k v acc) ps"
  have uv: "snd ` set (AList.update k v acc) \<subseteq> insert v (snd ` set acc)" by (rule update_values)
  have dd: "distinct (map fst ?F)" and ss: "snd ` set ?F \<subseteq> snd ` set (AList.update k v acc) \<union> snd ` set ps"
    using Cons.IH [OF d] by blast+
  have "snd ` set ?F \<subseteq> insert v (snd ` set acc) \<union> snd ` set ps"
    using ss uv by blast
  then have "snd ` set ?F \<subseteq> snd ` set acc \<union> snd ` set (p # ps)"
    unfolding p by auto
  then show ?case using dd p by simp
qed

lemma wf_py_dict:
  assumes "\<And>v. v \<in> snd ` set ps \<Longrightarrow> wf_json v"
  shows "wf_json (JObj (py_dict ps))"
proof -
  have "distinct (map fst (py_dict ps))" "snd ` set (py_dict ps) \<subseteq> snd ` set ps"
    using py_dict_foldl_wf [of "[]" ps] by (simp_all add: py_dict_def)
  then have "distinct (map fst (py_dict ps))" "\<forall>q \<in> set (py_dict ps). wf_json (snd q)"
    using assms by (simp, meson imageI subsetD)
  then show ?thesis by (simp add: list_all_iff case_prod_beta)
qed

lemma parse_number_wf: "parse_number s = Some (v, r) \<Longrightarrow> wf_json v"
  by (auto simp: parse_number_def Let_def split: list.splits if_splits)

lemma parse_wf:
  "(\<forall>v r. parse_value s = Some (v, r) \<longrightarrow> wf_json v)"
  "(\<forall>vs r. parse_elems s1 = Some (vs, r) \<longrightarrow> list_all wf_json vs)"
  "(\<forall>ps r. parse_members s2 = Some (ps, r) \<longrightarrow> (\<forall>v \<in> snd ` set ps. wf_json v))"
proof (induction s and s1 and s2 rule: parse_value_parse_elems_parse_members.induct)
  case (1 s)
  show ?case
  proof (intro allI impI)
    fix v r assume a: "parse_value s = Some (v, r)"
    then obtain c cs where s: "s = c # cs"
      by (cases s) (auto simp: parse_value.simps)
    consider (str) "c = dquote" | (obj) "c = CHR ''{''" | (arr) "c = CHR ''[''"
      | (wrd) "c = CHR ''n'' \<or> c = CHR ''t'' \<or> c = CHR ''f''"
      | (num) "c \<noteq> dquote" "c \<noteq> CHR ''{''" "c \<noteq> CHR ''[''" "c \<noteq> CHR ''n''" "c \<noteq> CHR ''t''" "c \<noteq> CHR ''f''"
      by blast
    then show "wf_json v"
    proof cases
      case str
      then show ?thesis
        using a s by (auto simp: parse_value.simps split: option.splits)
    next
      case obj
      then obtain d ds where sk: "skip_ws cs = d # ds"
        using a s by (cases "skip_ws cs") (auto simp: parse_value.simps)
      show ?thesis
      proof (cases "d = CHR ''}''")
        case True
        then show ?thesis using a s obj sk by (auto simp: parse_value.simps)
      next
        case False
        then have dq: "d = dquote" using a s obj sk by (auto simp: parse_value.simps split: if_splits)
        then obtain ps where pm: "parse_members ds = Some (ps, r)" "v = JObj (py_dict ps)"
          using a s obj sk False by (auto simp: parse_value.simps split: option.splits)
        then have "\<forall>v \<in> snd ` set ps. wf_json v"
          using "1.IH"(1) [OF s _ obj sk False dq] obj by simp
        then show ?thesis using pm(2) wf_py_dict [of ps] by blast
      qed
    next
      case arr
      then obtain d ds where sk: "skip_ws cs = d # ds"
        using a s by (cases "skip_ws cs") (auto simp: parse_value.simps)
      show ?thesis
      proof (cases "d = CHR '']''")
        case True
        then show ?thesis using a s arr sk by (auto simp: parse_value.simps)
      next
        case False
        then obtain vs where pe: "parse_elems (d # ds) = Some (vs, r)" "v = JList vs"
          using a s arr sk by (auto simp: parse_value.simps split: option.splits)
        then have "list_all wf_json vs"
          using "1.IH"(2) [OF s _ _ arr sk False] arr by simp
        then show ?thesis using pe(2) by simp
      qed
    next
      case wrd
      then show ?thesis
        using a s by (auto simp: parse_value.simps literal_word_def split: if_splits)
    next
      case num
      then show ?thesis
        using a s parse_number_wf [of s v r] by (simp add: parse_value.simps)
    qed
  qed
next
  case (2 s)
  show ?case
  proof (intro allI impI)
    fix vs r assume a: "parse_elems s = Some (vs, r)"
    then obtain v r0 where pv: "parse_value s = Some (v, r0)"
      by (subst (asm) parse_elems.simps) (auto split: option.splits)
    have wv: "wf_json v" using "2.IH"(1) pv by simp
    have g: "length r0 < length s" using parse_consumes(1) pv by blast
    from a pv g obtain c r1 where sk: "skip_ws r0 = c # r1"
      by (subst (asm) parse_elems.simps) (cases "skip_ws r0", auto)
    show "list_all wf_json vs"
    proof (cases "c = CHR '']''")
      case True
      then show ?thesis
        using a pv g sk wv by (subst (asm) parse_elems.simps) auto
    next
      case False
      then have cm: "c = CHR '',''"
        using a pv g sk by (subst (asm) parse_elems.simps) (auto split: if_splits)
      then obtain vs' where pe: "parse_elems (skip_ws r1) = Some (vs', r)" "vs = v # vs'"
        using a pv g sk False
        by (subst (asm) parse_elems.simps) (auto simp: cons_fst_def split: option.splits)
      then have "list_all wf_json vs'"
        using "2.IH"(2) [OF pv _ g sk False cm] by simp
      then show ?thesis using pe(2) wv by simp
    qed
  qed
next
  case (3 s)
  show ?case
  proof (intro allI impI)
    fix ps r assume a: "parse_members s = Some (ps, r)"
    then obtain k r0 where sc: "scanstring s = Some (k, r0)"
      by (subst (asm) parse_members_unguarded) (auto split: option.splits)
    from a sc obtain c r1 where sk: "skip_ws r0 = c # r1"
      by (subst (asm) parse_members_unguarded) (cases "skip_ws r0", auto)
    have col: "\<not> c \<noteq> CHR '':''"
      using a sc sk by (subst (asm) parse_members_unguarded) (auto split: if_splits)
    from a sc sk col obtain v r2 where pv: "parse_value (skip_ws r1) = Some (v, r2)"
      by (subst (asm) parse_members_unguarded) (auto split: option.splits)
    have wv: "wf_json v" using "3.IH"(1) [OF sc _ sk col] pv by simp
    have "length r2 < length (skip_ws r1)" using parse_consumes(1) pv by blast
    then have g: "length r2 < length s"
      using scanstring_shorter [OF sc] skip_ws_Cons_length [OF sk] skip_ws_length [of r1] by linarith
    from a sc sk col pv obtain d r3 where sk2: "skip_ws r2 = d # r3"
      by (subst (asm) parse_members_unguarded) (cases "skip_ws r2", auto)
    show "\<forall>v \<in> snd ` set ps. wf_json v"
    proof (cases "d = CHR ''}''")
      case True
      then show ?thesis
        using a sc sk col pv sk2 wv by (subst (asm) parse_members_unguarded) auto
    next
      case False
      then have cm: "d = CHR '',''"
        using a sc sk col pv sk2 by (subst (asm) parse_members_unguarded) (auto split: if_splits)
      from a sc sk col pv sk2 False cm obtain q r4 where sk3: "skip_ws r3 = q # r4"
        by (subst (asm) parse_members_unguarded) (cases "skip_ws r3", auto)
      have dq: "q = dquote"
        using a sc sk col pv sk2 False cm sk3
        by (subst (asm) parse_members_unguarded) (auto split: if_splits)
      then obtain ps' where pm: "parse_members r4 = Some (ps', r)" "ps = (k, v) # ps'"
        using a sc sk col pv sk2 False cm sk3
        by (subst (asm) parse_members_unguarded) (auto simp: cons_fst_def split: option.splits)
      then have "\<forall>v \<in> snd ` set ps'. wf_json v"
        using "3.IH"(2) [OF sc _ sk col pv _ g sk2 False cm sk3 dq] by simp
      then show ?thesis using pm(2) wv by simp
    qed
  qed
qed

lemma json_loads_wf: "json_loads s = Some v \<Longrightarrow> wf_json v"
  using parse_wf(1) [of "skip_ws s"]
  by (auto simp: json_loads_def split: option.splits if_splits)

section \<open>Rows and records\<close>

lemma those_map_total:
  "(\<And>x. x \<in> set xs \<Longrightarrow> f x \<noteq> None) \<Longrightarrow> those (map f xs) = Some (map (the \<circ> f) xs)"
  by (induction xs) (auto split: option.splits)

lemma get_all_readable:
  assumes "readable s"
  shows "get_all_startups_from_db s = map record_of (order_by_created_at_desc (rows s))"
proof -
  have "\<And>r. r \<in> set (order_by_created_at_desc (rows s)) \<Longrightarrow> row_to_startup r \<noteq> None"
    using assms by (simp add: readable_def order_by_created_at_desc_def list_all_iff)
  then have "those (map row_to_startup (order_by_created_at_desc (rows s)))
               = Some (map (the \<circ> row_to_startup) (order_by_created_at_desc (rows s)))"
    by (rule those_map_total)
  moreover have "the \<circ> row_to_startup = record_of" by (simp add: fun_eq_iff record_of_def)
  ultimately show ?thesis by (simp add: get_all_startups_from_db_def)
qed

lemma record_of_fields:
  assumes "row_to_startup r \<noteq> None"
  shows "s_created_at (record_of r) = created_at r" "s_id (record_of r) = row_id r"
    "s_industry_sector (record_of r) = industry_sector r"
    "s_founding_year (record_of r) = founding_year r"
    "s_company_name (record_of r) = company_name r"
  using assms by (auto simp: record_of_def row_to_startup_def split: option.splits)

lemma fold_max_ge: "(a::nat) \<le> fold max xs a \<and> (\<forall>x\<in>set xs. x \<le> fold max xs a)"
proof (induction xs arbitrary: a)
  case Nil
  then show ?case by simp
next
  case (Cons y ys)
  have "max y a \<le> fold max ys (max y a)" "\<forall>x\<in>set ys. x \<le> fold max ys (max y a)"
    using Cons.IH [of "max y a"] by simp_all
  then show ?case by auto
qed

lemma row_id_less_next: "r \<in> set (rows s) \<Longrightarrow> row_id r < next_id s"
  using fold_max_ge [of "sqlite_sequence s" "map row_id (rows s)"]
  by (auto simp: next_id_def less_Suc_eq_le)

lemma sql_insert_row:
  assumes "sql_insert clock v s = Some s'"
  shows "\<exists>new. rows s' = rows s @ [new] \<and> row_id new = next_id s
           \<and> founders new = Some (n_founders v)
           \<and> funding_rounds new = Some (n_funding_rounds v)
           \<and> key_partnerships new = Some (n_key_partnerships v)
           \<and> major_competitors new = Some (n_major_competitors v)
           \<and> text_affinity (sql_bind (n_company_name v)) = Some (company_name new)"
  using assms by (auto simp: sql_insert_def split: if_splits option.splits)

lemma map_of_wf: "wf_json (JObj d) \<Longrightarrow> map_of d k = Some v \<Longrightarrow> wf_json v"
  by (auto simp: list_all_iff dest!: map_of_SomeD)

lemma wf_sequence_value: "wf_json (JObj d) \<Longrightarrow> wf_json (sequence_value d l c)"
  by (auto simp: sequence_value_def dict_get_default_def map_of_wf split: option.splits)

lemma loads_column_dumps: "wf_json v \<Longrightarrow> loads_column (Some (json_dumps v)) = Some v"
  by (simp add: loads_column_def json_dumps_nonempty json_loads_dumps)

lemma reads_back_sequence_value: "reads_back d l c (sequence_value d l c)"
  by (auto simp: reads_back_def sequence_value_def dict_get_default_def)

lemma inserted_row:
  assumes "sql_insert clock (normalize d) s = Some s'" and "wf_json (JObj d)"
  shows "\<exists>new. rows s' = rows s @ [new] \<and> row_id new = next_id s
           \<and> row_to_startup new \<noteq> None
           \<and> s_founders (record_of new) = sequence_value d ''Founders'' ''founders''
           \<and> s_funding_rounds (record_of new) = sequence_value d ''Funding Rounds'' ''funding_rounds''
           \<and> s_key_partnerships (record_of new)
               = sequence_value d ''Key Partnerships'' ''key_partnerships''
           \<and> s_major_competitors (record_of new)
               = sequence_value d ''Major Competitors'' ''major_competitors''"
proof -
  obtain new where new: "rows s' = rows s @ [new]" "row_id new = next_id s"
    "founders new = Some (n_founders (normalize d))"
    "funding_rounds new = Some (n_funding_rounds (normalize d))"
    "key_partnerships new = Some (n_key_partnerships (normalize d))"
    "major_competitors new = Some (n_major_competitors (normalize d))"
    using sql_insert_row [OF assms(1)] by blast
  let ?f = "sequence_value d ''Founders'' ''founders''"
  let ?fr = "sequence_value d ''Funding Rounds'' ''funding_rounds''"
  let ?kp = "sequence_value d ''Key Partnerships'' ''key_partnerships''"
  let ?mc = "sequence_value d ''Major Competitors'' ''major_competitors''"
  have cols: "loads_column (founders new) = Some ?f" "loads_column (funding_rounds new) = Some ?fr"
    "loads_column (key_partnerships new) = Some ?kp" "loads_column (major_competitors new) = Some ?mc"
    using new(3-6) wf_sequence_value [OF assms(2)]
    by (simp_all add: normalize_def sequence_value_def [symmetric] loads_column_dumps)
  then have "row_to_startup new \<noteq> None" by (simp add: row_to_startup_def)
  moreover have "s_founders (record_of new) = ?f" "s_funding_rounds (record_of new) = ?fr"
    "s_key_partnerships (record_of new) = ?kp" "s_major_competitors (record_of new) = ?mc"
    using cols by (simp_all add: record_of_def row_to_startup_def)
  ultimately show ?thesis using new(1,2) by blast
qed

text \<open>
  The empty database is readable, and the save loop keeps a database readable when its
  candidates are Python values, as those \<open>parse_result_file\<close> returns are.
\<close>

lemma readable_empty_db: "readable empty_db"
  by (simp add: readable_def empty_db_def)

lemma save_keeps_readable:
  assumes "wf_json (JObj d)" and "readable s"
  shows "readable (snd (save_startup_to_db clock d s))"
proof (cases "sql_insert clock (normalize d) s")
  case None
  then show ?thesis using assms(2) by (simp add: save_startup_to_db_def)
next
  case (Some s')
  then obtain new where "rows s' = rows s @ [new]" "row_to_startup new \<noteq> None"
    using inserted_row [OF Some assms(1)] by blast
  then have "readable s'" using assms(2) by (simp add: readable_def)
  then show ?thesis using Some by (simp add: save_startup_to_db_def)
qed

lemma save_loop_keeps_readable:
  assumes "list_all wf_json xs" and "readable (snd st)"
  shows "readable (snd (foldl (save_step clock) st xs))"
  using assms
proof (induction xs arbitrary: st)
  case Nil
  then show ?case by simp
next
  case (Cons x xs)
  have "readable (snd (save_step clock st x))"
  proof (cases x)
    case (JObj d)
    then have "wf_json (JObj d)" using Cons.prems(1) by simp
    then have "readable (snd (save_startup_to_db clock d (snd st)))"
      using Cons.prems(2) by (rule save_keeps_readable)
    then show ?thesis
      using JObj Cons.prems(2) by (auto simp: save_step_def split: prod.splits)
  qed (use Cons.prems(2) in \<open>simp_all add: save_step_def\<close>)
  then show ?case using Cons.IH [of "save_step clock st x"] Cons.prems(1) by simp
qed

section \<open>Alias resolution\<close>

lemma resolves_scalar3:
  "resolves_scalar d [l, c] a dflt (py_or (py_or (dict_get d l) (dict_get d c)) (dict_get_default d a dflt))"
  by (auto simp: resolves_scalar_def spec_resolve_def py_or_def dict_get_def dict_get_default_def
           split: option.splits)

lemma resolves_scalar2:
  "resolves_scalar d [l] c dflt (py_or (dict_get d l) (dict_get_default d c dflt))"
  by (auto simp: resolves_scalar_def spec_resolve_def py_or_def dict_get_def dict_get_default_def
           split: option.splits)

lemma resolves_sequence2:
  "resolves_sequence d l c (json_dumps (dict_get_default d l (dict_get_default d c (JList []))))"
  by (auto simp: resolves_sequence_def dict_get_default_def join_sep_def split: option.splits)

text \<open>
  Claim C1, as amended. For each of the nine scalar fields with three keys the
  normalizer takes the first non-empty value among the label key, the canonical key and
  the short alias, and the field's default (the empty string for a text field, null for
  a numeric field) when the alias key is absent and the other two are empty; when label
  and canonical are empty and the alias key is present, its value is taken as it is,
  also an empty one (null, 0, the empty string), in place of the default.
  \<open>business_model\<close> has a label and a canonical key only, the canonical key standing
  last. For the four sequence fields there is no test for emptiness and no alias: the
  value under the label key is serialised whenever that key is present, otherwise the
  value under the canonical key when present, otherwise the empty sequence.
\<close>

theorem normalize_resolution:
  "resolves_scalar d [''Company Name'', ''company_name''] ''name'' (JStr '''')
     (n_company_name (normalize d))
   \<and> resolves_scalar d [''Website URL'', ''website_url''] ''website'' (JStr '''')
     (n_website_url (normalize d))
   \<and> resolves_scalar d [''Founding Year'', ''founding_year''] ''founded'' JNull
     (n_founding_year (normalize d))
   \<and> resolves_sequence d ''Founders'' ''founders'' (n_founders (normalize d))
   \<and> resolves_scalar d [''Business Model''] ''business_model'' (JStr '''')
     (n_business_model (normalize d))
   \<and> resolves_scalar d [''Industry Sector'', ''industry_sector''] ''industry'' (JStr '''')
     (n_industry_sector (normalize d))
   \<and> resolves_sequence d ''Funding Rounds'' ''funding_rounds'' (n_funding_rounds (normalize d))
   \<and> resolves_scalar d [''Total Capital Raised to Date'', ''total_capital_raised'']
     ''total_funding'' (JStr '''') (n_total_capital_raised (normalize d))
   \<and> resolves_scalar d [''Current Revenue Estimates'', ''current_revenue_estimates'']
     ''revenue'' (JStr '''') (n_current_revenue_estimates (normalize d))
   \<and> resolves_scalar d [''Employee Count'', ''employee_count''] ''employees'' JNull
     (n_employee_count (normalize d))
   \<and> resolves_scalar d [''Customer/User Base Size'', ''customer_user_base_size''] ''users''
     (JStr '''') (n_customer_user_base_size (normalize d))
   \<and> resolves_sequence d ''Key Partnerships'' ''key_partnerships'' (n_key_partnerships (normalize d))
   \<and> resolves_sequence d ''Major Competitors'' ''major_competitors''
     (n_major_competitors (normalize d))
   \<and> resolves_scalar d [''Recent News or Developments'', ''recent_news_developments'']
     ''recent_news'' (JStr '''') (n_recent_news_developments (normalize d))"
  unfolding normalize_def normalized.simps
  by (intro conjI resolves_scalar3 resolves_scalar2 resolves_sequence2)

text \<open>
  The theorem at a record that gives its name under the alias, the founding year 0
  under the label and under the alias, an empty \<open>Founders\<close> list beside a non-empty
  \<open>founders\<close> list, and no employee count.
\<close>

theorem normalize_resolution_witness:
  "truthy (dict_get sample_record ''name'')
   \<and> n_company_name (normalize sample_record) = JStr ''Beta Inc''
   \<and> map_of sample_record ''founded'' = Some (JInt 0)
   \<and> n_founding_year (normalize sample_record) = JInt 0
   \<and> map_of sample_record ''employees'' = None
   \<and> n_employee_count (normalize sample_record) = JNull
   \<and> map_of sample_record ''Founders'' = Some (JList [])
   \<and> n_founders (normalize sample_record) = ''[]''
   \<and> map_of sample_record ''Key Partnerships'' = None
   \<and> map_of sample_record ''key_partnerships'' = None
   \<and> n_key_partnerships (normalize sample_record) = ''[]''"
proof -
  have h1: "truthy (dict_get sample_record ''name'')"
    by (simp add: sample_record_def dict_get_def)
  have h2: "map_of sample_record ''founded'' = Some (JInt 0)"
    by (simp add: sample_record_def)
  have h3: "map_of sample_record ''employees'' = None"
    by (simp add: sample_record_def)
  have h4: "map_of sample_record ''Founders'' = Some (JList [])"
    by (simp add: sample_record_def)
  have h5: "map_of sample_record ''Key Partnerships'' = None"
    "map_of sample_record ''key_partnerships'' = None"
    by (simp_all add: sample_record_def)
  note t = normalize_resolution [of sample_record]
  have "n_company_name (normalize sample_record)
          = spec_resolve ([''Company Name'', ''company_name''] @ [''name'']) (JStr '''') sample_record"
    using t h1 by (simp add: resolves_scalar_def)
  then have c1: "n_company_name (normalize sample_record) = JStr ''Beta Inc''"
    by (simp add: spec_resolve_def dict_get_def sample_record_def)
  have "n_founding_year (normalize sample_record)
          = (if truthy (spec_resolve [''Founding Year'', ''founding_year''] JNull sample_record)
             then spec_resolve [''Founding Year'', ''founding_year''] JNull sample_record
             else JInt 0)"
    using t h2 by (simp add: resolves_scalar_def)
  then have c2: "n_founding_year (normalize sample_record) = JInt 0"
    by (simp add: spec_resolve_def dict_get_def sample_record_def)
  have "n_employee_count (normalize sample_record)
          = spec_resolve ([''Employee Count'', ''employee_count''] @ [''employees'']) JNull sample_record"
    using t h3 by (simp add: resolves_scalar_def)
  then have c3: "n_employee_count (normalize sample_record) = JNull"
    by (simp add: spec_resolve_def dict_get_def sample_record_def)
  have c4: "n_founders (normalize sample_record) = ''[]''"
    using t h4 by (simp add: resolves_sequence_def join_sep_def)
  have c5: "n_key_partnerships (normalize sample_record) = ''[]''"
    using t h5 by (simp add: resolves_sequence_def)
  show ?thesis using h1 h2 h3 h4 h5 c1 c2 c3 c4 c5 by simp
qed

text \<open>
  The claim as stated fails for a sequence field and for a numeric field. With an empty
  list under \<open>Founders\<close> and a founder under \<open>founders\<close> the stored text is \<open>[]\<close>,
  where the first non-empty value would give \<open>["A"]\<close>; and the year 0 under the alias
  \<open>founded\<close> is stored as 0, where the rule of the claim gives the default null.
\<close>

theorem first_nonempty_counterexample:
  "n_founders (normalize [(''Founders'', JList []), (''founders'', JList [JStr ''A''])]) = ''[]''
   \<and> json_dumps (spec_resolve [''Founders'', ''founders''] (JList [])
        [(''Founders'', JList []), (''founders'', JList [JStr ''A''])]) = ''['' @ qt ''A'' @ '']''
   \<and> n_founders (normalize [(''Founders'', JList []), (''founders'', JList [JStr ''A''])])
       \<noteq> json_dumps (spec_resolve [''Founders'', ''founders''] (JList [])
             [(''Founders'', JList []), (''founders'', JList [JStr ''A''])])
   \<and> n_founding_year (normalize [(''founded'', JInt 0)]) = JInt 0
   \<and> spec_resolve [''Founding Year'', ''founding_year'', ''founded''] JNull [(''founded'', JInt 0)]
       = JNull"
  by code_simp

section \<open>Round trip of the sequence fields\<close>

text \<open>
  Claim C2. When \<open>save_startup_to_db\<close> persists a record (a Python mapping) into a
  readable database, \<open>get_all_startups_from_db\<close> returns exactly one record with the
  new id, and each of its four sequence fields (founders, funding rounds, key
  partnerships, major competitors) is the value the raw record carries under the label
  key, or else under the canonical key, elements and order unchanged; a sequence field
  that the raw record lacks reads back as the empty sequence.
\<close>

theorem sequence_round_trip:
  assumes "save_startup_to_db clock d s = (True, s')"
    and "wf_json (JObj d)"
    and "readable s"
  shows "\<exists>r. filter (\<lambda>x. s_id x = next_id s) (get_all_startups_from_db s') = [r]
           \<and> reads_back d ''Founders'' ''founders'' (s_founders r)
           \<and> reads_back d ''Funding Rounds'' ''funding_rounds'' (s_funding_rounds r)
           \<and> reads_back d ''Key Partnerships'' ''key_partnerships'' (s_key_partnerships r)
           \<and> reads_back d ''Major Competitors'' ''major_competitors'' (s_major_competitors r)"
proof -
  have ins: "sql_insert clock (normalize d) s = Some s'"
    using assms(1) by (auto simp: save_startup_to_db_def split: option.splits)
  then obtain new where new: "rows s' = rows s @ [new]" "row_id new = next_id s"
    "row_to_startup new \<noteq> None"
    and rec: "s_founders (record_of new) = sequence_value d ''Founders'' ''founders''"
    "s_funding_rounds (record_of new) = sequence_value d ''Funding Rounds'' ''funding_rounds''"
    "s_key_partnerships (record_of new) = sequence_value d ''Key Partnerships'' ''key_partnerships''"
    "s_major_competitors (record_of new)
       = sequence_value d ''Major Competitors'' ''major_competitors''"
    using inserted_row [OF ins assms(2)] by blast
  have rd: "readable s'"
    using assms(3) new(1,3) by (simp add: readable_def)
  let ?P = "\<lambda>r. row_id r = next_id s"
  have only: "filter ?P (rows s') = [new]"
  proof -
    have "\<And>x. x \<in> set (rows s) \<Longrightarrow> row_id x \<noteq> next_id s"
      using row_id_less_next [of _ s] by fastforce
    then have "filter ?P (rows s) = []" by (simp add: filter_empty_conv)
    then show ?thesis using new(1,2) by simp
  qed
  have "filter (\<lambda>x. s_id x = next_id s) (get_all_startups_from_db s')
          = map record_of (filter (\<lambda>r. s_id (record_of r) = next_id s)
                             (order_by_created_at_desc (rows s')))"
    using get_all_readable [OF rd] by (simp add: filter_map comp_def)
  also have "filter (\<lambda>r. s_id (record_of r) = next_id s) (order_by_created_at_desc (rows s'))
          = filter ?P (order_by_created_at_desc (rows s'))"
    using rd record_of_fields(2)
    by (intro filter_cong) (auto simp: readable_def list_all_iff order_by_created_at_desc_def)
  also have "filter ?P (order_by_created_at_desc (rows s')) = [new]"
    using only by (simp add: order_by_created_at_desc_def filter_sort)
  finally have "filter (\<lambda>x. s_id x = next_id s) (get_all_startups_from_db s') = [record_of new]"
    by simp
  then show ?thesis
    using rec reads_back_sequence_value by auto
qed

text \<open>
  The record \<open>{"company_name": "Acme", "founders": ["A", "B"], "founding_year": 2021}\<close>
  with one funding round, saved into the empty database and read back.
\<close>

theorem sequence_round_trip_witness:
  "fst (save_startup_to_db clock0 acme_record empty_db)
   \<and> wf_json (JObj acme_record)
   \<and> readable empty_db
   \<and> map (\<lambda>x. (s_founders x, s_funding_rounds x, s_key_partnerships x))
         (filter (\<lambda>x. s_id x = next_id empty_db)
            (get_all_startups_from_db (snd (save_startup_to_db clock0 acme_record empty_db))))
       = [(JList [JStr ''A'', JStr ''B''],
           JList [JObj [(''Amount'', JStr ''$2 million''), (''Date'', JStr ''May 2021'')]],
           JList [])]"
proof -
  let ?s1 = "snd (save_startup_to_db clock0 acme_record empty_db)"
  have ok: "fst (save_startup_to_db clock0 acme_record empty_db)" by code_simp
  then have h1: "save_startup_to_db clock0 acme_record empty_db = (True, ?s1)"
    by (cases "save_startup_to_db clock0 acme_record empty_db") simp
  have h2: "wf_json (JObj acme_record)" by code_simp
  have h3: "readable empty_db" by (simp add: readable_def empty_db_def)
  from sequence_round_trip [OF h1 h2 h3]
  obtain r where r: "filter (\<lambda>x. s_id x = next_id empty_db) (get_all_startups_from_db ?s1) = [r]"
    "reads_back acme_record ''Founders'' ''founders'' (s_founders r)"
    "reads_back acme_record ''Funding Rounds'' ''funding_rounds'' (s_funding_rounds r)"
    "reads_back acme_record ''Key Partnerships'' ''key_partnerships'' (s_key_partnerships r)"
    by blast
  have "s_founders r = JList [JStr ''A'', JStr ''B'']"
    using r(2) by (simp add: reads_back_def acme_record_def)
  moreover have "s_funding_rounds r
                   = JList [JObj [(''Amount'', JStr ''$2 million''), (''Date'', JStr ''May 2021'')]]"
    using r(3) by (simp add: reads_back_def acme_record_def)
  moreover have "s_key_partnerships r = JList []"
    using r(4) by (simp add: reads_back_def acme_record_def)
  ultimately show ?thesis using ok h2 h3 r(1) by simp
qed

section \<open>Records without a company name\<close>

lemma not_truthy_resolve:
  assumes "\<not> truthy (dict_get d ''Company Name'')" "\<not> truthy (dict_get d ''company_name'')"
    "\<not> truthy (dict_get d ''name'')"
  shows "\<not> truthy (resolve_company_name d)"
proof -
  have "dict_get_default d ''name'' (JStr []) = dict_get d ''name''
        \<or> dict_get_default d ''name'' (JStr []) = JStr []"
    by (simp add: dict_get_default_def dict_get_def split: option.splits)
  then show ?thesis using assms by (auto simp: resolve_company_name_def py_or_def)
qed

text \<open>
  Claim C3. A candidate whose company name is empty (or absent) under the label, the
  canonical key and the short alias is rejected by the save loop of \<open>save_from_file\<close>
  and of \<open>save_startups_to_db\<close>: the pass over it changes neither the count of saved
  records nor the database, and a batch that contains it is processed exactly as the
  batch without it, so the candidates after it are still handled.
\<close>

theorem nameless_candidate_skipped:
  assumes "\<not> truthy (dict_get d ''Company Name'')" "\<not> truthy (dict_get d ''company_name'')"
    "\<not> truthy (dict_get d ''name'')"
  shows "save_step clock (n, s) (JObj d) = (n, s)
         \<and> save_loop clock (before @ JObj d # after) s = save_loop clock (before @ after) s
         \<and> save_startups_to_db clock (before @ JObj d # after) s
             = save_startups_to_db clock (before @ after) s"
proof -
  have st: "\<And>st. save_step clock st (JObj d) = st"
    using not_truthy_resolve [OF assms] by (simp add: save_step_def)
  have l: "\<And>xs ys. save_loop clock (xs @ JObj d # ys) s = save_loop clock (xs @ ys) s"
    by (simp add: save_loop_def st)
  have "save_startups_to_db clock (before @ JObj d # after) s
             = save_startups_to_db clock (before @ after) s"
    using l [of before after] st [of "(0, s)"] by (simp add: save_startups_to_db_def save_loop_def)
  then show ?thesis using st l [of before after] by simp
qed

text \<open>
  A batch of three: a record named A, a record with a website but an empty name, a
  record named B. Two rows are stored, A and B.
\<close>

theorem nameless_candidate_skipped_witness:
  "\<not> truthy (dict_get [(''website'', JStr ''x.io''), (''name'', JStr '''')] ''Company Name'')
   \<and> \<not> truthy (dict_get [(''website'', JStr ''x.io''), (''name'', JStr '''')] ''company_name'')
   \<and> \<not> truthy (dict_get [(''website'', JStr ''x.io''), (''name'', JStr '''')] ''name'')
   \<and> save_loop clock0
        ([JObj [(''name'', JStr ''A'')]]
          @ JObj [(''website'', JStr ''x.io''), (''name'', JStr '''')]
          # [JObj [(''company_name'', JStr ''B'')]]) empty_db
      = save_loop clock0 ([JObj [(''name'', JStr ''A'')]] @ [JObj [(''company_name'', JStr ''B'')]])
          empty_db
   \<and> fst (save_loop clock0
        ([JObj [(''name'', JStr ''A'')]]
          @ JObj [(''website'', JStr ''x.io''), (''name'', JStr '''')]
          # [JObj [(''company_name'', JStr ''B'')]]) empty_db) = 2
   \<and> map company_name (rows (snd (save_loop clock0
        ([JObj [(''name'', JStr ''A'')]]
          @ JObj [(''website'', JStr ''x.io''), (''name'', JStr '''')]
          # [JObj [(''company_name'', JStr ''B'')]]) empty_db))) = [''A'', ''B'']"
proof -
  let ?d = "[(''website'', JStr ''x.io''), (''name'', JStr '''')]"
  have h1: "\<not> truthy (dict_get ?d ''Company Name'')" by (simp add: dict_get_def)
  have h2: "\<not> truthy (dict_get ?d ''company_name'')" by (simp add: dict_get_def)
  have h3: "\<not> truthy (dict_get ?d ''name'')" by (simp add: dict_get_def)
  have e: "save_loop clock0 ([JObj [(''name'', JStr ''A'')]] @ [JObj [(''company_name'', JStr ''B'')]])
             empty_db
           = save_loop clock0 [JObj [(''name'', JStr ''A'')], JObj [(''company_name'', JStr ''B'')]]
               empty_db"
    by simp
  have c: "fst (save_loop clock0 [JObj [(''name'', JStr ''A'')], JObj [(''company_name'', JStr ''B'')]]
                  empty_db) = 2"
    by code_simp
  have r: "map company_name (rows (snd (save_loop clock0
              [JObj [(''name'', JStr ''A'')], JObj [(''company_name'', JStr ''B'')]] empty_db)))
           = [''A'', ''B'']"
    by code_simp
  show ?thesis
    using h1 h2 h3 c r
      nameless_candidate_skipped [OF h1 h2 h3, of clock0 0 empty_db
        "[JObj [(''name'', JStr ''A'')]]" "[JObj [(''company_name'', JStr ''B'')]]"]
    by (simp only: e) simp
qed

section \<open>Company names in the store\<close>

text \<open>
  The save loop of \<open>save_from_file\<close> and \<open>save_startups_to_db\<close> never stores an
  empty company name: it saves a candidate only when the resolved name is non-empty,
  and the name that is bound is that resolved value.
\<close>

lemma str_int_nonempty: "str_int i \<noteq> []"
  using str_int_start [of i] by auto

lemma text_affinity_truthy:
  "truthy v \<Longrightarrow> text_affinity (sql_bind v) = Some t \<Longrightarrow> bindable v \<Longrightarrow> t \<noteq> []"
  by (cases v) (auto simp: str_int_nonempty)

lemma save_startup_named:
  assumes "truthy (resolve_company_name d)" and "named s"
  shows "named (snd (save_startup_to_db clock d s))"
proof (cases "sql_insert clock (normalize d) s")
  case None
  then show ?thesis using assms(2) by (simp add: save_startup_to_db_def)
next
  case (Some s')
  then obtain new where new: "rows s' = rows s @ [new]"
    "text_affinity (sql_bind (n_company_name (normalize d))) = Some (company_name new)"
    using sql_insert_row [OF Some] by blast
  have b: "bindable (n_company_name (normalize d))"
    using Some by (auto simp: sql_insert_def scalar_values_def split: if_splits)
  have "n_company_name (normalize d) = resolve_company_name d"
    by (simp add: normalize_def resolve_company_name_def)
  then have "company_name new \<noteq> []"
    using text_affinity_truthy [OF _ new(2) b] assms(1) by simp
  then have "named s'" using assms(2) new(1) by (simp add: named_def)
  then show ?thesis using Some by (simp add: save_startup_to_db_def)
qed

lemma save_loop_named:
  assumes "named (snd st)"
  shows "named (snd (foldl (save_step clock) st xs))"
  using assms
proof (induction xs arbitrary: st)
  case Nil
  then show ?case by simp
next
  case (Cons x xs)
  have "named (snd (save_step clock st x))"
  proof (cases x)
    case (JObj d)
    show ?thesis
    proof (cases "truthy (resolve_company_name d)")
      case True
      then have "named (snd (save_startup_to_db clock d (snd st)))"
        using Cons.prems by (rule save_startup_named)
      then show ?thesis using JObj True by (auto simp: save_step_def split: prod.splits)
    next
      case False
      then show ?thesis using JObj Cons.prems by (simp add: save_step_def)
    qed
  qed (use Cons.prems in \<open>simp_all add: save_step_def\<close>)
  then show ?case using Cons.IH [of "save_step clock st x"] by simp
qed

text \<open>
  Claim C4 does not hold of the ingestion path of \<open>research_startups.py\<close>. Its
  \<open>parse_and_save_result_file\<close> accepts an item as soon as \<open>company_name\<close> is one of
  its keys, but its \<open>save_startup_to_db\<close> reads the name under \<open>Company Name\<close> only,
  with the empty string as default. For the file text \<open>[{"company_name": "Acme"}]\<close>
  it reports success and stores a row whose company name is empty, where
  \<open>save_from_file\<close> stores \<open>Acme\<close> for the same file.
\<close>

theorem research_path_stores_empty_name:
  "fst (parse_and_save_result_file clock0 [(''research_results.json'', canonical_key_text)]
          ''research_results.json'' empty_db)
   \<and> map company_name
         (rows (snd (parse_and_save_result_file clock0
                       [(''research_results.json'', canonical_key_text)]
                       ''research_results.json'' empty_db))) = [[]]
   \<and> map company_name
         (rows (snd (save_from_file clock0 [(''research_results.json'', canonical_key_text)]
                       ''research_results.json'' empty_db))) = [''Acme'']"
  by code_simp

section \<open>Recovery parsing\<close>

lemma takeWhile_until: "c \<notin> set xs \<Longrightarrow> takeWhile (\<lambda>x. x \<noteq> c) (xs @ c # ys) = xs"
  by (induction xs) auto

lemma py_find_first: "c \<notin> set pre \<Longrightarrow> py_find (pre @ c # rest) c = int (length pre)"
  by (simp add: py_find_def takeWhile_until)

lemma py_rfind_last: "c \<notin> set post \<Longrightarrow> py_rfind (pre @ c # post) c = int (length pre)"
proof -
  assume a: "c \<notin> set post"
  have "takeWhile (\<lambda>x. x \<noteq> c) (rev post @ c # rev pre) = rev post"
    using a by (intro takeWhile_until) simp
  then show ?thesis by (simp add: py_rfind_def)
qed

lemma py_slice_middle:
  "py_slice (pre @ xs @ post) (int (length pre)) (int (length pre + length xs)) = xs"
  by (simp add: py_slice_def)

lemma dropWhile_keeps: "\<not> P c \<Longrightarrow> dropWhile P (xs @ c # ys) = dropWhile P xs @ c # ys"
  by (induction xs) auto

lemma py_strip_brackets:
  "py_strip (lead @ CHR ''['' # mid @ CHR '']'' # trail)
     = dropWhile is_py_ws lead @ CHR ''['' # mid @ CHR '']'' # rev (dropWhile is_py_ws (rev trail))"
proof -
  have a: "\<not> is_py_ws (CHR ''['')" "\<not> is_py_ws (CHR '']'')" by (simp_all add: is_py_ws_def)
  have "dropWhile is_py_ws (lead @ CHR ''['' # mid @ CHR '']'' # trail)
          = dropWhile is_py_ws lead @ CHR ''['' # mid @ CHR '']'' # trail"
    using a(1) by (rule dropWhile_keeps)
  moreover have "dropWhile is_py_ws (rev trail @ CHR '']'' # rev mid @ CHR ''['' # rev (dropWhile is_py_ws lead))
          = dropWhile is_py_ws (rev trail) @ CHR '']'' # rev mid @ CHR ''['' # rev (dropWhile is_py_ws lead)"
    using a(2) by (rule dropWhile_keeps)
  ultimately show ?thesis by (simp add: py_strip_def)
qed

lemma recovered_text:
  assumes "CHR ''['' \<notin> set pre" "CHR '']'' \<notin> set post"
  shows "py_slice (pre @ CHR ''['' # mid @ CHR '']'' # post)
           (py_find (pre @ CHR ''['' # mid @ CHR '']'' # post) (CHR ''[''))
           (py_rfind (pre @ CHR ''['' # mid @ CHR '']'' # post) (CHR '']'') + 1)
         = CHR ''['' # mid @ [CHR '']'']"
    and "py_find (pre @ CHR ''['' # mid @ CHR '']'' # post) (CHR ''['') = int (length pre)"
    and "py_rfind (pre @ CHR ''['' # mid @ CHR '']'' # post) (CHR '']'') = int (length pre + length mid + 1)"
proof -
  show f: "py_find (pre @ CHR ''['' # mid @ CHR '']'' # post) (CHR ''['') = int (length pre)"
    using assms(1) by (rule py_find_first)
  have "py_rfind ((pre @ CHR ''['' # mid) @ CHR '']'' # post) (CHR '']'') = int (length (pre @ CHR ''['' # mid))"
    using assms(2) by (rule py_rfind_last)
  then show r: "py_rfind (pre @ CHR ''['' # mid @ CHR '']'' # post) (CHR '']'') = int (length pre + length mid + 1)"
    by simp
  have "py_slice (pre @ (CHR ''['' # mid @ [CHR '']'']) @ post) (int (length pre))
          (int (length pre + length (CHR ''['' # mid @ [CHR '']'']))) = CHR ''['' # mid @ [CHR '']'']"
    by (rule py_slice_middle)
  then show "py_slice (pre @ CHR ''['' # mid @ CHR '']'' # post)
           (py_find (pre @ CHR ''['' # mid @ CHR '']'' # post) (CHR ''[''))
           (py_rfind (pre @ CHR ''['' # mid @ CHR '']'' # post) (CHR '']'') + 1)
         = CHR ''['' # mid @ [CHR '']'']"
    by (simp add: f r add.commute)
qed

lemma set_py_strip: "set (py_strip c) \<subseteq> set c"
proof -
  have "set (dropWhile is_py_ws (rev (dropWhile is_py_ws c))) \<subseteq> set (rev (dropWhile is_py_ws c))"
    by (meson set_dropWhileD subsetI)
  moreover have "set (dropWhile is_py_ws c) \<subseteq> set c" by (meson set_dropWhileD subsetI)
  ultimately show ?thesis by (auto simp: py_strip_def)
qed

text \<open>
  Claim C5, as amended. When the stripped text of a file fails strict parsing,
  \<open>parse_result_file\<close> parses the substring from the first \<open>[\<close> to the last \<open>]\<close>
  again: for a text made of a leading block without \<open>[\<close>, a bracketed span and a
  trailing block without \<open>]\<close>, the result is what \<open>json.loads\<close> makes of that span, so
  a well-formed array there is extracted exactly, and a span that does not parse yields
  zero records. A text without \<open>[\<close> or without \<open>]\<close> yields zero records as well. In
  no case does the function raise.
\<close>

theorem recovery_parsing:
  "(json_loads (py_strip c) = None
      \<and> c = lead @ CHR ''['' # mid @ CHR '']'' # trail
      \<and> CHR ''['' \<notin> set lead \<and> CHR '']'' \<notin> set trail
    \<longrightarrow> parse_content c
          = (case json_loads (CHR ''['' # mid @ [CHR '']'']) of
               Some data \<Rightarrow> records_of data
             | None \<Rightarrow> [])
        \<and> (\<forall>xs. json_loads (CHR ''['' # mid @ [CHR '']'']) = Some (JList xs) \<longrightarrow> parse_content c = xs)
        \<and> (json_loads (CHR ''['' # mid @ [CHR '']'']) = None \<longrightarrow> parse_content c = []))
   \<and> (json_loads (py_strip c) = None \<and> (CHR ''['' \<notin> set c \<or> CHR '']'' \<notin> set c)
    \<longrightarrow> parse_content c = [])"
proof (intro conjI impI)
  assume a: "json_loads (py_strip c) = None
      \<and> c = lead @ CHR ''['' # mid @ CHR '']'' # trail
      \<and> CHR ''['' \<notin> set lead \<and> CHR '']'' \<notin> set trail"
  define pre where "pre = dropWhile is_py_ws lead"
  define post where "post = rev (dropWhile is_py_ws (rev trail))"
  have s: "py_strip c = pre @ CHR ''['' # mid @ CHR '']'' # post"
    using a py_strip_brackets [of lead mid trail] by (simp add: pre_def post_def)
  have "set pre \<subseteq> set lead" unfolding pre_def by (meson set_dropWhileD subsetI)
  then have p1: "CHR ''['' \<notin> set pre" using a by auto
  have "set post \<subseteq> set trail" unfolding post_def
    using set_dropWhileD [of _ is_py_ws "rev trail"] by auto
  then have p2: "CHR '']'' \<notin> set post" using a by auto
  note rt = recovered_text [OF p1 p2, of mid]
  show m: "parse_content c
          = (case json_loads (CHR ''['' # mid @ [CHR '']'']) of
               Some data \<Rightarrow> records_of data
             | None \<Rightarrow> [])"
    using a s rt by (simp add: parse_content_def Let_def)
  show "\<forall>xs. json_loads (CHR ''['' # mid @ [CHR '']'']) = Some (JList xs) \<longrightarrow> parse_content c = xs"
    using m by (simp add: records_of_def)
  assume "json_loads (CHR ''['' # mid @ [CHR '']'']) = None"
  then show "parse_content c = []" using m by simp
next
  assume a: "json_loads (py_strip c) = None \<and> (CHR ''['' \<notin> set c \<or> CHR '']'' \<notin> set c)"
  then have "CHR ''['' \<notin> set (py_strip c) \<or> CHR '']'' \<notin> set (py_strip c)"
    using set_py_strip [of c] by auto
  then have "py_find (py_strip c) (CHR ''['') = - 1 \<or> py_rfind (py_strip c) (CHR '']'') = - 1"
    by (auto simp: py_find_def py_rfind_def)
  then show "parse_content c = []" using a by (auto simp: parse_content_def Let_def)
qed

text \<open>
  The theorem at the text \<open>Here are the results: [{"name": "A"}] -- end of list.\<close>
  and at a text without brackets.
\<close>

theorem recovery_parsing_witness:
  "json_loads (py_strip prose_text) = None
   \<and> prose_text = ''Here are the results: '' @ CHR ''['' # (''{'' @ qt ''name'' @ '': '' @ qt ''A'' @ ''}'')
        @ CHR '']'' # '' -- end of list.''
   \<and> parse_content prose_text = [JObj [(''name'', JStr ''A'')]]
   \<and> json_loads ''no list here'' = None
   \<and> parse_content ''no list here'' = []"
proof -
  let ?lead = "''Here are the results: ''"
  let ?mid = "''{'' @ qt ''name'' @ '': '' @ qt ''A'' @ ''}''"
  let ?trail = "'' -- end of list.''"
  have h1: "json_loads (py_strip prose_text) = None" by code_simp
  have h2: "prose_text = ?lead @ CHR ''['' # ?mid @ CHR '']'' # ?trail"
    by (simp add: prose_text_def one_record_text_def)
  have h3: "CHR ''['' \<notin> set ?lead \<and> CHR '']'' \<notin> set ?trail" by simp
  have h4: "json_loads (CHR ''['' # ?mid @ [CHR '']'']) = Some (JList [JObj [(''name'', JStr ''A'')]])"
    by code_simp
  have g1: "json_loads (py_strip ''no list here'') = None" by code_simp
  have g0: "json_loads ''no list here'' = None" by code_simp
  have g2: "CHR ''['' \<notin> set ''no list here''" by simp
  have "parse_content prose_text = [JObj [(''name'', JStr ''A'')]]"
    using recovery_parsing [of prose_text ?lead ?mid ?trail] h1 h2 h3 h4 by blast
  moreover have "parse_content ''no list here'' = []"
    using recovery_parsing [of "''no list here''" "[]" "[]" "[]"] g1 g2 by blast
  ultimately show ?thesis using h1 h2 g0 by blast
qed

text \<open>
  The claim as stated fails for a text with a second bracketed span after the array:
  the leading block is prose, the array \<open>[{"name": "A"}]\<close> is well formed, the
  trailing block is prose, and yet the span that is parsed again runs to the last \<open>]\<close>,
  does not parse, and the file yields zero records instead of the first array.
\<close>

theorem first_span_counterexample:
  "json_loads (''see '' @ one_record_text @ '' and [2]'') = None
   \<and> json_loads one_record_text = Some (JList [JObj [(''name'', JStr ''A'')]])
   \<and> parse_content (''see '' @ one_record_text @ '' and [2]'') = []
   \<and> parse_content (''see '' @ one_record_text @ '' and [2]'') \<noteq> [JObj [(''name'', JStr ''A'')]]"
  by code_simp

section \<open>The report of a single file\<close>

lemma save_loop_count:
  assumes "\<And>d s'. JObj d \<in> set xs \<Longrightarrow> truthy (resolve_company_name d)
             \<Longrightarrow> fst (save_startup_to_db clock d s')"
  shows "fst (foldl (save_step clock) (n, s) xs) = n + length (filter has_company_name xs)"
  using assms
proof (induction xs arbitrary: n s)
  case Nil
  then show ?case by simp
next
  case (Cons x xs)
  have ih: "\<And>n' s'. fst (foldl (save_step clock) (n', s') xs) = n' + length (filter has_company_name xs)"
    by (rule Cons.IH) (rule Cons.prems, simp_all)
  show ?case
  proof (cases "has_company_name x")
    case True
    then obtain d where d: "x = JObj d" "truthy (resolve_company_name d)"
      by (auto simp: has_company_name_def split: json.splits)
    then have ok: "fst (save_startup_to_db clock d s)" using Cons.prems [of d s] by simp
    obtain s1 where "save_startup_to_db clock d s = (True, s1)"
      using ok by (cases "save_startup_to_db clock d s") auto
    then have "save_step clock (n, s) x = (n + 1, s1)"
      using d by (simp add: save_step_def)
    then show ?thesis using True ih [of "n + 1" s1] by simp
  next
    case False
    then have "save_step clock (n, s) x = (n, s)"
      by (auto simp: save_step_def has_company_name_def split: json.splits)
    then show ?thesis using False ih [of n s] by simp
  qed
qed

lemma json_loads_Nil: "json_loads [] = None"
  by (simp add: json_loads_def skip_ws_def parse_value.simps)

text \<open>
  Claim C6, as amended. For an existing file whose stripped text is a valid JSON array
  of \<open>N \<ge> 1\<close> elements, \<open>M\<close> of them objects with a resolvable company name,
  \<open>save_from_file\<close> reports \<open>N\<close> startups found and, when every insert of such a
  record succeeds, \<open>M\<close> startups saved.
\<close>

theorem single_file_report:
  assumes "map_of fs filename = Some c"
    and "json_loads (py_strip c) = Some (JList xs)"
    and "xs \<noteq> []"
    and "\<forall>d s'. JObj d \<in> set xs \<and> truthy (resolve_company_name d)
           \<longrightarrow> fst (save_startup_to_db clock d s')"
  shows "fst (save_from_file clock fs filename s)
           = FileReport (''Successfully processed '' @ filename)
               (length xs) (length (filter has_company_name xs))"
proof -
  have ne: "py_strip c \<noteq> []" using assms(2) json_loads_Nil by auto
  have p: "parse_result_file fs filename = xs"
    using assms(1,2) ne by (simp add: parse_result_file_def parse_content_def records_of_def)
  have "fst (save_loop clock xs s) = length (filter has_company_name xs)"
    unfolding save_loop_def using save_loop_count [of xs clock 0 s] assms(4) by simp
  then show ?thesis
    using assms(1,3) p
    by (auto simp: save_from_file_def path_exists_def Let_def split: prod.splits)
qed

text \<open>A file of three records, the second without a name: 3 found, 2 saved.\<close>

lemma save_ok_A: "fst (save_startup_to_db clock [(''name'', JStr ''A'')] s')"
  by (simp add: save_startup_to_db_def sql_insert_def normalize_def scalar_values_def py_or_def
        dict_get_def dict_get_default_def)

lemma save_ok_C: "fst (save_startup_to_db clock [(''Company Name'', JStr ''C'')] s')"
  by (simp add: save_startup_to_db_def sql_insert_def normalize_def scalar_values_def py_or_def
        dict_get_def dict_get_default_def)

theorem single_file_report_witness:
  "map_of [(''r.json'', three_records_text)] ''r.json'' = Some three_records_text
   \<and> json_loads (py_strip three_records_text)
       = Some (JList [JObj [(''name'', JStr ''A'')], JObj [(''website'', JStr ''x.io'')],
                      JObj [(''Company Name'', JStr ''C'')]])
   \<and> fst (save_from_file clock0 [(''r.json'', three_records_text)] ''r.json'' empty_db)
       = FileReport ''Successfully processed r.json'' 3 2"
proof -
  let ?xs = "[JObj [(''name'', JStr ''A'')], JObj [(''website'', JStr ''x.io'')],
              JObj [(''Company Name'', JStr ''C'')]]"
  have h1: "map_of [(''r.json'', three_records_text)] ''r.json'' = Some three_records_text"
    by simp
  have h2: "json_loads (py_strip three_records_text) = Some (JList ?xs)"
    by code_simp
  have h3: "?xs \<noteq> []" by simp
  have h4: "\<forall>d s'. JObj d \<in> set ?xs \<and> truthy (resolve_company_name d)
           \<longrightarrow> fst (save_startup_to_db clock0 d s')"
    using save_ok_A save_ok_C
    by (auto simp: resolve_company_name_def py_or_def dict_get_def dict_get_default_def)
  have n: "length (filter has_company_name ?xs) = 2" by code_simp
  show ?thesis
    using single_file_report [OF h1 h2 h3 h4, of empty_db] h1 h2 n by simp
qed

text \<open>
  The claim as stated fails for \<open>N = 0\<close>: a file that holds the valid array \<open>[]\<close>
  gets status 400 and no report.
\<close>

theorem empty_array_counterexample:
  "json_loads ''[]'' = Some (JList [])
   \<and> save_from_file clock0 [(''r.json'', ''[]'')] ''r.json'' empty_db
       = (HTTPException 400 ''No valid startup data found in r.json'', empty_db)"
  by code_simp

section \<open>The source keyword \<open>all\<close> without sources\<close>

text \<open>
  Claim C7, as amended. When no file is named \<open>all\<close> and the three patterns match no
  file, \<open>save_from_file\<close> called with \<open>all\<close> fails with status 404,
  \<open>No result files found\<close>, and leaves the database as it was, so there is no partial
  report; the command-line \<open>main\<close> finds no file either and returns without a total,
  the database untouched as well.
\<close>

theorem no_sources_not_found:
  assumes "\<not> path_exists fs ''all''" and "result_files fs = []"
  shows "save_from_file clock fs ''all'' s = (HTTPException 404 ''No result files found'', s)
         \<and> main_all clock fs s = (None, s)"
  using assms by (simp add: save_from_file_def main_all_def)

text \<open>The theorem at a directory that holds a text file only.\<close>

theorem no_sources_not_found_witness:
  "\<not> path_exists [(''notes.txt'', ''to do'')] ''all''
   \<and> result_files [(''notes.txt'', ''to do'')] = []
   \<and> save_from_file clock0 [(''notes.txt'', ''to do'')] ''all'' empty_db
       = (HTTPException 404 ''No result files found'', empty_db)
   \<and> main_all clock0 [(''notes.txt'', ''to do'')] empty_db = (None, empty_db)"
proof -
  have h1: "\<not> path_exists [(''notes.txt'', ''to do'')] ''all''"
    by (simp add: path_exists_def)
  have h2: "result_files [(''notes.txt'', ''to do'')] = []"
    by code_simp
  show ?thesis
    using h1 h2 no_sources_not_found [OF h1 h2, of clock0 empty_db] by simp
qed

text \<open>
  The claim as stated fails when a file named \<open>all\<close> exists: the patterns match no
  file of this directory, yet the call ingests the file and reports one record found
  and saved.
\<close>

theorem no_sources_counterexample:
  "result_files [(''all'', one_record_text)] = []
   \<and> fst (save_from_file clock0 [(''all'', one_record_text)] ''all'' empty_db)
       = FileReport ''Successfully processed all'' 1 1
   \<and> map company_name (rows (snd (save_from_file clock0 [(''all'', one_record_text)] ''all'' empty_db)))
       = [''A'']"
  by code_simp

section \<open>Listing\<close>

lemma prefix_take: "take (length sub) s = sub \<longleftrightarrow> (\<exists>post. s = sub @ post)"
  by (metis append_eq_conv_conj append_take_drop_id)

lemma py_contains_iff: "py_contains s sub \<longleftrightarrow> (\<exists>pre post. s = pre @ sub @ post)"
proof (induction s)
  case Nil
  then show ?case by simp
next
  case (Cons c cs)
  have "(\<exists>pre post. c # cs = pre @ sub @ post)
        \<longleftrightarrow> (\<exists>post. c # cs = sub @ post) \<or> (\<exists>pre post. cs = pre @ sub @ post)"
  proof
    assume "\<exists>pre post. c # cs = pre @ sub @ post"
    then obtain pre post where e: "c # cs = pre @ sub @ post" by blast
    show "(\<exists>post. c # cs = sub @ post) \<or> (\<exists>pre post. cs = pre @ sub @ post)"
    proof (cases pre)
      case Nil
      then show ?thesis using e by auto
    next
      case (Cons a pre')
      then have "cs = pre' @ sub @ post" using e by simp
      then show ?thesis by blast
    qed
  next
    assume "(\<exists>post. c # cs = sub @ post) \<or> (\<exists>pre post. cs = pre @ sub @ post)"
    then show "\<exists>pre post. c # cs = pre @ sub @ post"
    proof
      assume "\<exists>post. c # cs = sub @ post"
      then obtain post where "c # cs = [] @ sub @ post" by auto
      then show ?thesis by blast
    next
      assume "\<exists>pre post. cs = pre @ sub @ post"
      then obtain pre post where "c # cs = (c # pre) @ sub @ post" by auto
      then show ?thesis by blast
    qed
  qed
  then show ?case using Cons.IH prefix_take [of sub "c # cs"] by simp
qed

lemma newest_first:
  assumes "readable s"
  shows "sorted_wrt (\<lambda>a b. s_created_at b \<le> s_created_at a) (get_all_startups_from_db s)"
proof -
  let ?rs = "order_by_created_at_desc (rows s)"
  have "sorted (map (\<lambda>r. - int (created_at r)) ?rs)"
    by (simp add: order_by_created_at_desc_def)
  then have "sorted_wrt (\<lambda>x y. created_at y \<le> created_at x) ?rs"
    by (simp add: sorted_map)
  moreover have "\<And>r. r \<in> set ?rs \<Longrightarrow> s_created_at (record_of r) = created_at r"
    using assms record_of_fields(1)
    by (simp add: readable_def order_by_created_at_desc_def list_all_iff)
  ultimately have "sorted_wrt (\<lambda>x y. s_created_at (record_of y) \<le> s_created_at (record_of x)) ?rs"
    by (auto elim!: sorted_wrt_mono_rel [rotated])
  then show ?thesis
    using get_all_readable [OF assms] by (simp add: sorted_wrt_map)
qed

lemma all_records:
  assumes "readable s"
  shows "mset (get_all_startups_from_db s) = mset (map record_of (rows s))"
  using get_all_readable [OF assms] by (simp add: order_by_created_at_desc_def)

lemma industry_matches_iff:
  "industry_matches q x
     \<longleftrightarrow> (\<exists>t pre post. s_industry_sector x = Some t \<and> py_lower t = pre @ py_lower q @ post)"
  by (auto simp: industry_matches_def py_contains_iff split: option.splits)

lemma keeps_code:
  "keeps i y x
     = ((i \<noteq> None \<and> i \<noteq> Some [] \<longrightarrow> industry_matches (the i) x)
        \<and> (y \<noteq> None \<and> y \<noteq> Some 0 \<longrightarrow> s_founding_year x = SqlInt (the y)))"
  by (cases i; cases y) (auto simp: keeps_def industry_matches_iff)

text \<open>
  Claim C8, as amended. For a readable database, a limit that is not negative, and an
  industry filter that is absent or empty unless every row has an industry,
  \<open>get_startups\<close> answers with a list: it takes the records of all rows newest first
  by \<open>created_at\<close>, keeps exactly those whose industry contains the given text without
  regard to case (when an industry is given and not empty) and whose founding year
  equals the given year (when a year is given and not 0), and cuts the result to the
  limit, 100 when none is given, after filtering.
\<close>

theorem list_newest_first_filtered:
  assumes "readable s"
    and "case limit of None \<Rightarrow> True | Some n \<Rightarrow> 0 \<le> n"
    and "industry = None \<or> industry = Some [] \<or> list_all (\<lambda>r. industry_sector r \<noteq> None) (rows s)"
  shows "\<exists>every. mset every = mset (map record_of (rows s))
           \<and> sorted_wrt (\<lambda>a b. s_created_at b \<le> s_created_at a) every
           \<and> get_startups limit industry year s
               = Inr (take (case limit of None \<Rightarrow> 100 | Some n \<Rightarrow> nat n)
                        (filter (keeps industry year) every))"
proof -
  let ?every = "get_all_startups_from_db s"
  have ge: "?every = map record_of (order_by_created_at_desc (rows s))"
    by (rule get_all_readable [OF assms(1)])
  have noerr: "\<not> ((industry \<noteq> None \<and> industry \<noteq> Some [])
                  \<and> list_ex (\<lambda>x. s_industry_sector x = None) ?every)"
  proof
    assume a: "(industry \<noteq> None \<and> industry \<noteq> Some [])
                  \<and> list_ex (\<lambda>x. s_industry_sector x = None) ?every"
    then have nn: "list_all (\<lambda>r. industry_sector r \<noteq> None) (rows s)" using assms(3) by auto
    from a obtain r where r: "r \<in> set (rows s)" "s_industry_sector (record_of r) = None"
      by (auto simp: ge list_ex_iff order_by_created_at_desc_def)
    then have "row_to_startup r \<noteq> None" using assms(1) by (simp add: readable_def list_all_iff)
    then have "industry_sector r = None" using r(2) record_of_fields(3) by simp
    then show False using nn r(1) by (auto simp: list_all_iff)
  qed
  have lim: "py_upto xs (case limit of None \<Rightarrow> 100 | Some n \<Rightarrow> n)
               = take (case limit of None \<Rightarrow> 100 | Some n \<Rightarrow> nat n) xs" for xs :: "startup list"
    using assms(2) by (simp add: py_upto_def split: option.splits)
  have flt: "(if founding_year' \<noteq> None \<and> founding_year' \<noteq> Some 0
              then filter (\<lambda>x. s_founding_year x = SqlInt (the founding_year'))
                     (if industry \<noteq> None \<and> industry \<noteq> Some []
                      then filter (industry_matches (the industry)) ?every else ?every)
              else (if industry \<noteq> None \<and> industry \<noteq> Some []
                      then filter (industry_matches (the industry)) ?every else ?every))
             = filter (keeps industry founding_year') ?every" for founding_year'
    by (auto simp: keeps_code intro!: filter_cong)
  have "get_startups limit industry year s
          = Inr (take (case limit of None \<Rightarrow> 100 | Some n \<Rightarrow> nat n)
                   (filter (keeps industry year) ?every))"
    unfolding get_startups_def Let_def using noerr by (simp only: if_False flt lim)
  then show ?thesis
    using all_records [OF assms(1)] newest_first [OF assms(1)] by blast
qed

text \<open>
  The theorem at a database with one record, A, of industry FinTech, founded in 2020.
\<close>

theorem list_newest_first_filtered_witness:
  "readable year_db
   \<and> map (\<lambda>x. (s_company_name x, s_industry_sector x, s_founding_year x))
         (case get_startups (Some 10) (Some ''fin'') (Some 2020) year_db of
            Inr xs \<Rightarrow> xs | Inl e \<Rightarrow> [])
       = [(''A'', Some ''FinTech'', SqlInt 2020)]
   \<and> get_startups (Some 10) (Some ''bio'') None year_db = Inr []
   \<and> get_startups None None (Some 2021) year_db = Inr []"
proof -
  have h1: "readable year_db" by code_simp
  have h2: "case Some (10::int) of None \<Rightarrow> True | Some n \<Rightarrow> 0 \<le> n" by simp
  have h3: "Some ''fin'' = None \<or> Some ''fin'' = Some []
              \<or> list_all (\<lambda>r. industry_sector r \<noteq> None) (rows year_db)"
    by code_simp
  from list_newest_first_filtered [OF h1 h2 h3, of "Some 2020"]
  obtain every where e: "mset every = mset (map record_of (rows year_db))"
    "get_startups (Some 10) (Some ''fin'') (Some 2020) year_db
       = Inr (take 10 (filter (keeps (Some ''fin'') (Some 2020)) every))"
    by auto
  have v: "map (\<lambda>x. (s_company_name x, s_industry_sector x, s_founding_year x))
         (case get_startups (Some 10) (Some ''fin'') (Some 2020) year_db of
            Inr xs \<Rightarrow> xs | Inl e \<Rightarrow> [])
       = [(''A'', Some ''FinTech'', SqlInt 2020)]"
    by code_simp
  have b: "get_startups (Some 10) (Some ''bio'') None year_db = Inr []" by code_simp
  have y: "get_startups None None (Some 2021) year_db = Inr []" by code_simp
  show ?thesis using h1 e v b y by simp
qed

text \<open>
  The claim as stated fails for the year 0: the filter is skipped, and the record
  founded in 2020 is returned.
\<close>

theorem year_zero_counterexample:
  "map (\<lambda>x. (s_company_name x, s_founding_year x))
     (case get_startups None None (Some 0) year_db of Inr xs \<Rightarrow> xs | Inl e \<Rightarrow> [])
     = [(''A'', SqlInt 2020)]
   \<and> SqlInt 2020 \<noteq> SqlInt 0"
  by code_simp

text \<open>
  With a row whose industry is NULL the industry filter does not answer with a list
  but with status 500; the amended claim leaves this case out.
\<close>

lemma null_industry_raises:
  "map industry_sector (rows null_industry_db) = [Some ''FinTech'', None]
   \<and> get_startups None (Some ''fin'') None null_industry_db
       = Inl (500, ''Error retrieving startups: '' @ [CHR 0x27] @ ''NoneType'' @ [CHR 0x27]
                     @ '' object has no attribute '' @ [CHR 0x27] @ ''lower'' @ [CHR 0x27])"
  by code_simp

section \<open>Statistics\<close>

lemma industries_set:
  "set (industries (get_database_stats num s)) =
     {t. t \<noteq> [] \<and> (\<exists>r. r \<in> set (rows s) \<and> industry_sector r = Some t)}"
  by (auto simp: get_database_stats_def split: option.splits if_splits)

text \<open>
  Claim C9. Over the empty store \<open>get_database_stats\<close> returns a total of 0, no
  industries, a null average founding year and 0 records with disclosed funding. For
  any store the total counts the rows, the disclosed-funding count is the number of rows
  whose \<open>total_capital_raised\<close> is not NULL, not empty and not the text
  \<open>Not disclosed\<close>, the industries are listed once each and are exactly the non-empty
  \<open>industry_sector\<close> values of the rows, and the average is null exactly when no row
  has a founding year.
\<close>

theorem stats_empty_and_counts:
  "get_database_stats num empty_db =
     \<lparr> total_startups = 0, industries = [], avg_founding_year = None, total_funding_disclosed = 0 \<rparr>
   \<and> total_startups (get_database_stats num s) = length (rows s)
   \<and> total_funding_disclosed (get_database_stats num s) =
       length (filter (\<lambda>r. \<exists>t. total_capital_raised r = Some t \<and> t \<noteq> [] \<and> t \<noteq> ''Not disclosed'')
                 (rows s))
   \<and> distinct (industries (get_database_stats num s))
   \<and> set (industries (get_database_stats num s)) =
       {t. t \<noteq> [] \<and> (\<exists>r. r \<in> set (rows s) \<and> industry_sector r = Some t)}
   \<and> (avg_founding_year (get_database_stats num s) = None
        \<longleftrightarrow> list_all (\<lambda>r. founding_year r = SqlNull) (rows s))"
proof -
  have e: "get_database_stats num empty_db =
     \<lparr> total_startups = 0, industries = [], avg_founding_year = None, total_funding_disclosed = 0 \<rparr>"
    by (simp add: get_database_stats_def empty_db_def sql_avg_def)
  have f: "funding_disclosed = (\<lambda>r. \<exists>t. total_capital_raised r = Some t \<and> t \<noteq> [] \<and> t \<noteq> ''Not disclosed'')"
    by (auto simp: funding_disclosed_def fun_eq_iff split: option.splits)
  have c: "total_funding_disclosed (get_database_stats num s) =
       length (filter (\<lambda>r. \<exists>t. total_capital_raised r = Some t \<and> t \<noteq> [] \<and> t \<noteq> ''Not disclosed'')
                 (rows s))"
    by (simp add: get_database_stats_def f)
  have a: "avg_founding_year (get_database_stats num s) = None
        \<longleftrightarrow> list_all (\<lambda>r. founding_year r = SqlNull) (rows s)"
    by (auto simp: get_database_stats_def sql_avg_def Let_def list_all_iff split: sqlval.splits)
       (metis sqlval.exhaust)
  have t: "total_startups (get_database_stats num s) = length (rows s)"
    by (simp add: get_database_stats_def)
  have d: "distinct (industries (get_database_stats num s))"
    by (simp add: get_database_stats_def)
  show ?thesis
    using e t c d a industries_set [of num s] by blast
qed

section \<open>The source keyword \<open>all\<close> and a file of that name\<close>

lemma process_file_names:
  "foldl (process_file clock fs) (t, p, s) fl = (t', p', s') \<Longrightarrow> map fst p' = map fst p @ fl"
proof (induction fl arbitrary: t p s)
  case Nil
  then show ?case by simp
next
  case (Cons f fl)
  obtain n s1 where sl: "save_loop clock (parse_result_file fs f) s = (n, s1)"
    by (cases "save_loop clock (parse_result_file fs f) s")
  then have "process_file clock fs (t, p, s) f = (t + n, p @ [(f, n)], s1)"
    by (simp add: process_file_def)
  then show ?case using Cons.IH [of "t + n" "p @ [(f, n)]" s1] Cons.prems by simp
qed

text \<open>
  Claim C10. \<open>save_from_file\<close> tests first whether the given name exists. When a file
  named \<open>all\<close> exists, the call does what it does in a directory that holds this file
  alone: the file is parsed as one ordinary source, and the answer is never the report
  over several files nor the 404 of an empty expansion. Only when no file is named
  \<open>all\<close> are the patterns expanded: the answer is then that 404 (nothing matched) or
  the report whose per-file entries are the matched files in order.
\<close>

theorem all_keyword_after_existence_check:
  "(\<forall>c. map_of fs ''all'' = Some c \<longrightarrow>
      save_from_file clock fs ''all'' s = save_from_file clock [(''all'', c)] ''all'' s
      \<and> \<not> is_all_report (fst (save_from_file clock fs ''all'' s))
      \<and> fst (save_from_file clock fs ''all'' s) \<noteq> HTTPException 404 ''No result files found'')
   \<and> (map_of fs ''all'' = None \<longrightarrow>
      (result_files fs = [] \<and>
         fst (save_from_file clock fs ''all'' s) = HTTPException 404 ''No result files found'')
      \<or> (\<exists>m t ps. fst (save_from_file clock fs ''all'' s) = AllReport m t ps
              \<and> map fst ps = result_files fs))"
proof (intro conjI allI impI)
  fix c assume a: "map_of fs ''all'' = Some c"
  show "save_from_file clock fs ''all'' s = save_from_file clock [(''all'', c)] ''all'' s"
    using a by (simp add: save_from_file_def path_exists_def parse_result_file_def)
  show "\<not> is_all_report (fst (save_from_file clock fs ''all'' s))"
    using a
    by (simp add: save_from_file_def path_exists_def is_all_report_def Let_def split: prod.splits)
  show "fst (save_from_file clock fs ''all'' s) \<noteq> HTTPException 404 ''No result files found''"
    using a
    by (simp add: save_from_file_def path_exists_def Let_def split: prod.splits)
next
  assume a: "map_of fs ''all'' = None"
  show "(result_files fs = [] \<and>
         fst (save_from_file clock fs ''all'' s) = HTTPException 404 ''No result files found'')
      \<or> (\<exists>m t ps. fst (save_from_file clock fs ''all'' s) = AllReport m t ps
              \<and> map fst ps = result_files fs)"
  proof (cases "result_files fs = []")
    case True
    then show ?thesis using a by (simp add: save_from_file_def path_exists_def)
  next
    case False
    obtain t p s' where f: "foldl (process_file clock fs) (0, [], s) (result_files fs) = (t, p, s')"
      by (cases "foldl (process_file clock fs) (0, [], s) (result_files fs)") auto
    then have "map fst p = result_files fs" using process_file_names [OF f] by simp
    then show ?thesis using a False f by (simp add: save_from_file_def path_exists_def Let_def)
  qed
qed

text \<open>
  The theorem at two directories: one holds a file named \<open>all\<close> beside a primary
  result file, which is then not touched; the other holds the primary result file only,
  which the expansion finds.
\<close>

theorem all_keyword_after_existence_check_witness:
  "map_of [(''all'', one_record_text), (''research_results.json'', one_record_text)] ''all''
     = Some one_record_text
   \<and> save_from_file clock0 [(''all'', one_record_text), (''research_results.json'', one_record_text)]
       ''all'' empty_db
     = save_from_file clock0 [(''all'', one_record_text)] ''all'' empty_db
   \<and> fst (save_from_file clock0 [(''all'', one_record_text)] ''all'' empty_db)
     = FileReport ''Successfully processed all'' 1 1
   \<and> map_of [(''research_results.json'', one_record_text)] ''all'' = None
   \<and> fst (save_from_file clock0 [(''research_results.json'', one_record_text)] ''all'' empty_db)
     = AllReport ''Successfully processed 1 files'' 1 [(''research_results.json'', 1)]"
proof -
  have m: "map_of [(''all'', one_record_text), (''research_results.json'', one_record_text)] ''all''
     = Some one_record_text"
    by simp
  have r: "fst (save_from_file clock0 [(''all'', one_record_text)] ''all'' empty_db)
     = FileReport ''Successfully processed all'' 1 1"
    by code_simp
  have a: "fst (save_from_file clock0 [(''research_results.json'', one_record_text)] ''all'' empty_db)
     = AllReport ''Successfully processed 1 files'' 1 [(''research_results.json'', 1)]"
    by code_simp
  from all_keyword_after_existence_check
         [of "[(''all'', one_record_text), (''research_results.json'', one_record_text)]"
             clock0 empty_db]
  have "save_from_file clock0 [(''all'', one_record_text), (''research_results.json'', one_record_text)]
       ''all'' empty_db
     = save_from_file clock0 [(''all'', one_record_text)] ''all'' empty_db"
    using m by blast
  then show ?thesis using m r a by simp
qed

end
